theory Spec2Isabelle
  imports Main "HOL-Library.Multiset" "HOL-Library.AList"
begin

section \<open>Python text\<close>

text \<open>
  A Python \<open>str\<close> is a sequence of Unicode code points, and \<open>len\<close> counts code
  points, so a \<open>str\<close> is modelled as a list of natural numbers. \<open>py\<close> turns an
  ASCII literal of the source into that form. A Python \<open>bytes\<close> value is a
  \<open>string\<close>, a list of 8-bit characters.
\<close>

type_synonym pystr = "nat list"

definition py :: "string \<Rightarrow> pystr" where
  "py s = map of_char s"


section \<open>The line store (server/cache\_manager.py)\<close>

type_synonym line = pystr

text \<open>
  \<open>ThreadSafeCache\<close>: the deque of available lines and the counter of lines ever
  loaded. Every method body runs under \<open>self.lock\<close>, so each method is one atomic
  state transformer; the lock itself carries no data.
\<close>

record cache =
  available_lines :: "line list"
  total_lines_loaded :: int

definition init_cache :: cache where
  "init_cache = \<lparr>available_lines = [], total_lines_loaded = 0\<rparr>"

text \<open>\<open>add_lines\<close>: extend the deque, bump the counter, return \<open>len(lines)\<close>.\<close>

definition add_lines :: "cache \<Rightarrow> line list \<Rightarrow> int \<times> cache" where
  "add_lines c lines =
     (int (length lines),
      c\<lparr>available_lines := available_lines c @ lines,
        total_lines_loaded := total_lines_loaded c + int (length lines)\<rparr>)"

text \<open>
  \<open>random.sample(population, k)\<close> returns the elements found at \<open>k\<close> pairwise
  different positions of the population, in the order the generator chose them. The
  generator's choice is the parameter \<open>draw\<close>, the list of chosen positions;
  \<open>valid_draw\<close> says what every choice of the library satisfies.
\<close>

definition valid_draw :: "nat \<Rightarrow> nat \<Rightarrow> nat list \<Rightarrow> bool" where
  "valid_draw n k draw \<longleftrightarrow> length draw = k \<and> distinct draw \<and> list_all (\<lambda>j. j < n) draw"

definition random_sample :: "'a list \<Rightarrow> nat \<Rightarrow> nat list \<Rightarrow> 'a list" where
  "random_sample population k draw = map (\<lambda>j. population ! j) draw"

text \<open>
  \<open>sample\<close>: the guard, the clamp of \<open>n\<close>, the library call, and the rebuild of the
  deque from the lines whose content is not in \<open>set(sampled)\<close>.
\<close>

definition sample :: "nat list \<Rightarrow> cache \<Rightarrow> int \<Rightarrow> line list \<times> cache" where
  "sample draw c n =
     (if available_lines c = [] \<or> n \<le> 0 then ([], c)
      else
        let n' = min n (int (length (available_lines c)));
            lines_list = available_lines c;
            sampled = random_sample lines_list (nat n') draw;
            sampled_set = set sampled
        in (sampled,
            c\<lparr>available_lines := filter (\<lambda>line. line \<notin> sampled_set) lines_list\<rparr>))"

definition cache_size :: "cache \<Rightarrow> int" where
  "cache_size c = int (length (available_lines c))"

text \<open>\<open>get_stats\<close>: the pair (available\_lines, total\_lines\_loaded) of the dictionary.\<close>

definition get_stats :: "cache \<Rightarrow> int \<times> int" where
  "get_stats c = (int (length (available_lines c)), total_lines_loaded c)"

text \<open>
  The four public methods as operations on the store, and the state each leaves:
  \<open>size\<close> and \<open>get_stats\<close> only read. A sample operation carries the positions
  the generator chooses for it.
\<close>

datatype store_op = AddLines "line list" | Sample int "nat list" | Size | Stats

fun apply_op :: "cache \<Rightarrow> store_op \<Rightarrow> cache" where
  "apply_op c (AddLines lines) = snd (add_lines c lines)"
| "apply_op c (Sample n draw) = snd (sample draw c n)"
| "apply_op c Size = c"
| "apply_op c Stats = c"

definition run_ops :: "cache \<Rightarrow> store_op list \<Rightarrow> cache" where
  "run_ops c ops = foldl apply_op c ops"

definition store_inv :: "cache \<Rightarrow> bool" where
  "store_inv c \<longleftrightarrow> int (length (available_lines c)) \<le> total_lines_loaded c"

section \<open>JSON text (the library behind server/protocol.py)\<close>

text \<open>
  \<open>Protocol\<close> serialises with \<open>json.dumps\<close> and parses with \<open>json.loads\<close>, both
  with their default options. The values they exchange are the JSON values. A dictionary
  is an association list in insertion order, with text keys. Floating-point arithmetic is
  not modelled: a float is identified by the text of its \<open>repr\<close>, and what the
  interpreter computes on floats is a parameter wherever the code depends on it.

  Two limits of the interpreter bound what the library accepts, in both directions. The
  conversion between an integer and its decimal text raises \<open>ValueError\<close> beyond
  \<open>sys.int_max_str_digits\<close> digits, 4300 by default. Every list and dictionary
  entered costs one level of recursion, and \<open>RecursionError\<close> is raised when the
  levels the interpreter still allows are used up; how many it allows at the call is the
  parameter \<open>depth\<close>.
\<close>


datatype json =
    JNull
  | JBool bool
  | JInt int
  | JFloat pystr
  | JStr pystr
  | JList "json list"
  | JDict "(pystr \<times> json) list"

text \<open>
  Characters are written by their code points. Those the two directions name:
  34 the double quote, 92 the backslash, 47 the slash, 123 and 125 the braces, 91 and 93
  the brackets, 44 the comma, 58 the colon, 32 the space, 9, 10 and 13 the tab, the line
  feed and the carriage return, 8 and 12 the backspace and the form feed, 45 and 43 the
  signs, 46 the dot, 48 to 57 the digits, 101 and 69 the letter e, 117 the letter u, 39
  the single quote.
\<close>

subsection \<open>Serialising: \<open>json.dumps\<close>\<close>

text \<open>
  With \<open>ensure_ascii\<close> (the default), a string is written between double quotes;
  the quote, the backslash, and the backspace, form feed, line feed, carriage return and
  tab are written as a backslash and one character; the other characters
  from the space to the tilde stand for themselves; every other code point is written as
  a backslash, the letter u and four lower-case hexadecimal digits, those beyond \<open>0xFFFF\<close> as a
  surrogate pair.
\<close>


definition hex_digit :: "nat \<Rightarrow> nat" where
  "hex_digit d = (if d < 10 then 48 + d else 87 + d)"

definition hex4 :: "nat \<Rightarrow> pystr" where
  "hex4 n = [hex_digit (n div 4096 mod 16), hex_digit (n div 256 mod 16),
             hex_digit (n div 16 mod 16), hex_digit (n mod 16)]"

definition escape_char :: "nat \<Rightarrow> pystr" where
  "escape_char c =
     (if c = 34 then [92, 34]
      else if c = 92 then [92, 92]
      else if c = 8 then [92, 98]
      else if c = 12 then [92, 102]
      else if c = 10 then [92, 110]
      else if c = 13 then [92, 114]
      else if c = 9 then [92, 116]
      else if 32 \<le> c \<and> c \<le> 126 then [c]
      else if c < 65536 then [92, 117] @ hex4 c
      else [92, 117] @ hex4 (55296 + (c - 65536) div 1024 mod 1024)
         @ [92, 117] @ hex4 (56320 + (c - 65536) mod 1024))"

definition encode_basestring_ascii :: "pystr \<Rightarrow> pystr" where
  "encode_basestring_ascii s = [34] @ concat (map escape_char s) @ [34]"

text \<open>Integers are written in decimal, as \<open>int.__repr__\<close> does.\<close>


fun nat_repr :: "nat \<Rightarrow> pystr" where
  "nat_repr n = (if n < 10 then [48 + n] else nat_repr (n div 10) @ [48 + n mod 10])"

declare nat_repr.simps [simp del]

definition int_repr :: "int \<Rightarrow> pystr" where
  "int_repr i = (if i < 0 then 45 # nat_repr (nat (- i)) else nat_repr (nat i))"

text \<open>
  The number of decimal digits of an integer, and the most the conversion accepts.
  \<open>int_repr\<close> is the text of the integers within the limit; \<open>json_dumps\<close> below
  raises for the others.
\<close>

definition int_max_str_digits :: nat where
  "int_max_str_digits = 4300"

definition int_digits :: "int \<Rightarrow> nat" where
  "int_digits i = length (nat_repr (nat \<bar>i\<bar>))"

text \<open>
  A float is written as its \<open>repr\<close>, except the three values that JSON has no text
  for.
\<close>


definition float_json :: "pystr \<Rightarrow> pystr" where
  "float_json r =
     (if r = py ''nan'' then py ''NaN''
      else if r = py ''inf'' then py ''Infinity''
      else if r = py ''-inf'' then py ''-Infinity''
      else r)"

text \<open>
  Lists and dictionaries are written with the default separators, a comma and a space
  between items and a colon and a space between a key and its value.
\<close>


fun dumps :: "json \<Rightarrow> pystr"
  and dumps_list :: "json list \<Rightarrow> pystr"
  and dumps_items :: "(pystr \<times> json) list \<Rightarrow> pystr" where
  "dumps JNull = py ''null''"
| "dumps (JBool b) = (if b then py ''true'' else py ''false'')"
| "dumps (JInt i) = int_repr i"
| "dumps (JFloat r) = float_json r"
| "dumps (JStr s) = encode_basestring_ascii s"
| "dumps (JList xs) = [91] @ dumps_list xs @ [93]"
| "dumps (JDict kvs) = [123] @ dumps_items kvs @ [125]"
| "dumps_list [] = []"
| "dumps_list [x] = dumps x"
| "dumps_list (x # y # ys) = dumps x @ [44, 32] @ dumps_list (y # ys)"
| "dumps_items [] = []"
| "dumps_items [(k, v)] = encode_basestring_ascii k @ [58, 32] @ dumps v"
| "dumps_items ((k, v) # p # ps) =
     encode_basestring_ascii k @ [58, 32] @ dumps v @ [44, 32] @ dumps_items (p # ps)"

text \<open>
  \<open>json.dumps\<close> returns that text when every integer of the value is within the digit
  limit and the lists and dictionaries are nested no deeper than the interpreter allows;
  otherwise it raises (\<open>None\<close>). An empty list or dictionary costs a level too.
\<close>

fun within_limits :: "nat \<Rightarrow> json \<Rightarrow> bool"
  and within_limits_list :: "nat \<Rightarrow> json list \<Rightarrow> bool"
  and within_limits_items :: "nat \<Rightarrow> (pystr \<times> json) list \<Rightarrow> bool" where
  "within_limits depth (JInt i) = (int_digits i \<le> int_max_str_digits)"
| "within_limits depth (JList xs) = (0 < depth \<and> within_limits_list (depth - 1) xs)"
| "within_limits depth (JDict kvs) = (0 < depth \<and> within_limits_items (depth - 1) kvs)"
| "within_limits depth v = True"
| "within_limits_list depth [] = True"
| "within_limits_list depth (x # xs) = (within_limits depth x \<and> within_limits_list depth xs)"
| "within_limits_items depth [] = True"
| "within_limits_items depth ((k, v) # kvs) =
     (within_limits depth v \<and> within_limits_items depth kvs)"

definition json_dumps :: "nat \<Rightarrow> json \<Rightarrow> pystr option" where
  "json_dumps depth v = (if within_limits depth v then Some (dumps v) else None)"

subsection \<open>Parsing: \<open>json.loads\<close>\<close>

text \<open>
  The scanner of the library (CPython's, in its default strict mode), function by
  function. Every function takes the text that
  is left and returns what it read together with the text after it; \<open>None\<close> stands for
  the exception the library raises (\<open>JSONDecodeError\<close>, or \<open>ValueError\<close> and
  \<open>RecursionError\<close> at the two limits). White space is the space, the tab, the
  line feed and the carriage return.
\<close>


definition is_ws :: "nat \<Rightarrow> bool" where
  "is_ws c \<longleftrightarrow> c = 32 \<or> c = 9 \<or> c = 10 \<or> c = 13"

definition skip_ws :: "pystr \<Rightarrow> pystr" where
  "skip_ws s = dropWhile is_ws s"

text \<open>
  \<open>scanstring\<close> reads a string after its opening quote, in strict mode: a control
  character is an error, a backslash starts one of the eight short escapes or an
  escape of four hexadecimal digits, and a high surrogate escape directly followed by a low surrogate
  escape makes one code point.
\<close>


definition hex_value :: "nat \<Rightarrow> nat option" where
  "hex_value c =
     (if 48 \<le> c \<and> c \<le> 57 then Some (c - 48)
      else if 97 \<le> c \<and> c \<le> 102 then Some (c - 87)
      else if 65 \<le> c \<and> c \<le> 70 then Some (c - 55)
      else None)"

fun decode_uXXXX :: "pystr \<Rightarrow> nat option" where
  "decode_uXXXX (a # b # c # d # rest) =
     (case (hex_value a, hex_value b, hex_value c, hex_value d) of
        (Some w, Some x, Some y, Some z) \<Rightarrow> Some (((w * 16 + x) * 16 + y) * 16 + z)
      | _ \<Rightarrow> None)"
| "decode_uXXXX _ = None"

definition backslash :: "nat \<Rightarrow> nat option" where
  "backslash esc =
     (if esc = 34 then Some 34
      else if esc = 92 then Some 92
      else if esc = 47 then Some 47
      else if esc = 98 then Some 8
      else if esc = 102 then Some 12
      else if esc = 110 then Some 10
      else if esc = 114 then Some 13
      else if esc = 116 then Some 9
      else None)"

definition prepend :: "'a \<Rightarrow> ('a list \<times> 'b) option \<Rightarrow> ('a list \<times> 'b) option" where
  "prepend x r = (case r of None \<Rightarrow> None | Some (xs, rest) \<Rightarrow> Some (x # xs, rest))"

function scanstring :: "pystr \<Rightarrow> (pystr \<times> pystr) option" where
  "scanstring [] = None"
| "scanstring (c # cs) =
     (if c = 34 then Some ([], cs)
      else if c = 92 then
        (case cs of
           [] \<Rightarrow> None
         | esc # cs' \<Rightarrow>
             if esc = 117 then
               (case decode_uXXXX cs' of
                  None \<Rightarrow> None
                | Some uni \<Rightarrow>
                    if 55296 \<le> uni \<and> uni \<le> 56319 \<and> take 2 (drop 4 cs') = [92, 117] then
                      (case decode_uXXXX (drop 6 cs') of
                         None \<Rightarrow> None
                       | Some uni2 \<Rightarrow>
                           if 56320 \<le> uni2 \<and> uni2 \<le> 57343
                           then prepend (65536 + ((uni - 55296) * 1024 + (uni2 - 56320)))
                                  (scanstring (drop 10 cs'))
                           else prepend uni (scanstring (drop 4 cs')))
                    else prepend uni (scanstring (drop 4 cs')))
             else
               (case backslash esc of
                  None \<Rightarrow> None
                | Some ch \<Rightarrow> prepend ch (scanstring cs')))
      else if c < 32 then None
      else prepend c (scanstring cs))"
  by pat_completeness auto
termination
  by (relation "measure length") auto

text \<open>
  A number is an optional minus sign and an integer part without leading zeros, then an
  optional fraction and an optional exponent; with neither it is an \<open>int\<close>, converted
  from its digits unless they are more than the digit limit; otherwise it is a float,
  whose conversion from the matched text is the parameter \<open>float_of\<close>.
\<close>


definition is_digit :: "nat \<Rightarrow> bool" where
  "is_digit c \<longleftrightarrow> 48 \<le> c \<and> c \<le> 57"

definition digits_value :: "pystr \<Rightarrow> nat" where
  "digits_value ds = foldl (\<lambda>a c. a * 10 + (c - 48)) 0 ds"

definition match_sign :: "pystr \<Rightarrow> pystr" where
  "match_sign s = (case s of [] \<Rightarrow> [] | c # cs \<Rightarrow> if c = 45 then [45] else [])"

definition match_integer :: "pystr \<Rightarrow> pystr" where
  "match_integer s =
     (case s of
        [] \<Rightarrow> []
      | c # cs \<Rightarrow>
          if c = 48 then [48]
          else if 49 \<le> c \<and> c \<le> 57 then takeWhile is_digit s
          else [])"

definition match_frac :: "pystr \<Rightarrow> pystr" where
  "match_frac s =
     (case s of
        [] \<Rightarrow> []
      | c # cs \<Rightarrow> if c = 46 \<and> takeWhile is_digit cs \<noteq> [] then 46 # takeWhile is_digit cs else [])"

definition match_exp :: "pystr \<Rightarrow> pystr" where
  "match_exp s =
     (case s of
        [] \<Rightarrow> []
      | c # cs \<Rightarrow>
          if c = 101 \<or> c = 69 then
            (let sg = (case cs of [] \<Rightarrow> [] | d # ds \<Rightarrow> if d = 45 \<or> d = 43 then [d] else []);
                 digits = takeWhile is_digit (drop (length sg) cs)
             in if digits \<noteq> [] then c # sg @ digits else [])
          else [])"

definition match_number :: "(pystr \<Rightarrow> pystr) \<Rightarrow> pystr \<Rightarrow> (json \<times> pystr) option" where
  "match_number float_of s =
     (let sign = match_sign s;
          integer = match_integer (drop (length sign) s)
      in if integer = [] then None
         else
           let s2 = drop (length sign + length integer) s;
               frac = match_frac s2;
               exp = match_exp (drop (length frac) s2)
           in if frac = [] \<and> exp = []
              then (if length integer \<le> int_max_str_digits
                    then Some (JInt (if sign = [] then int (digits_value integer)
                                      else - int (digits_value integer)), s2)
                    else None)
              else Some (JFloat (float_of (sign @ integer @ frac @ exp)),
                         drop (length frac + length exp) s2))"

text \<open>
  The parser fills a dictionary pair by pair: a key that comes again keeps its place and
  takes the new value.
\<close>


definition dict_of_pairs :: "(pystr \<times> json) list \<Rightarrow> (pystr \<times> json) list" where
  "dict_of_pairs pairs = foldl (\<lambda>d (k, v). AList.update k v d) [] pairs"

text \<open>
  The scanner enters a list or a dictionary only when a level of recursion is left, and
  scans its items with one level less. The loops over the items of an array and of an
  object call the scanner for each value and go on in the text the scanner left. The test on the lengths in the two loops is
  what makes the recursion well-founded; \<open>array_items_unguarded\<close> and
  \<open>object_items_unguarded\<close> below show that it always succeeds.
\<close>


lemma skip_ws_length: "length (skip_ws s) \<le> length s"
  by (simp add: skip_ws_def length_dropWhile_le)

lemma skip_ws_Cons_length: "skip_ws s = d # ds \<Longrightarrow> length ds < length s"
  using skip_ws_length [of s] by simp

lemma prepend_Some: "prepend x r = Some (ys, rest) \<longleftrightarrow> (\<exists>xs. r = Some (xs, rest) \<and> ys = x # xs)"
  by (auto simp: prepend_def split: option.splits)

lemma scanstring_length: "scanstring s = Some (str, r) \<Longrightarrow> length r < length s"
proof (induction s arbitrary: str r rule: scanstring.induct)
  case 1
  then show ?case by simp
next
  case (2 c cs)
  show ?case
    using "2.prems" "2.IH"
    by (auto simp: prepend_Some split: if_splits list.splits option.splits) force+
qed

function (sequential)
  scan_once :: "(pystr \<Rightarrow> pystr) \<Rightarrow> nat \<Rightarrow> pystr \<Rightarrow> (json \<times> pystr) option"
  and array_items :: "(pystr \<Rightarrow> pystr) \<Rightarrow> nat \<Rightarrow> pystr \<Rightarrow> (json list \<times> pystr) option"
  and object_items ::
    "(pystr \<Rightarrow> pystr) \<Rightarrow> nat \<Rightarrow> pystr \<Rightarrow> ((pystr \<times> json) list \<times> pystr) option"
  where
  "scan_once float_of depth [] = None"
| "scan_once float_of depth (c # cs) =
     (if c = 34 then
        (case scanstring cs of None \<Rightarrow> None | Some (str, r) \<Rightarrow> Some (JStr str, r))
      else if c = 123 then
        (if depth = 0 then None
         else
           (case skip_ws cs of
              [] \<Rightarrow> None
            | d # ds \<Rightarrow>
                if d = 125 then Some (JDict [], ds)
                else (case object_items float_of (depth - 1) (d # ds) of
                        None \<Rightarrow> None
                      | Some (pairs, r) \<Rightarrow> Some (JDict (dict_of_pairs pairs), r))))
      else if c = 91 then
        (if depth = 0 then None
         else
           (case skip_ws cs of
              [] \<Rightarrow> None
            | d # ds \<Rightarrow>
                if d = 93 then Some (JList [], ds)
                else (case array_items float_of (depth - 1) (d # ds) of
                        None \<Rightarrow> None
                      | Some (values, r) \<Rightarrow> Some (JList values, r))))
      else if c = 110 \<and> take 3 cs = py ''ull'' then Some (JNull, drop 3 cs)
      else if c = 116 \<and> take 3 cs = py ''rue'' then Some (JBool True, drop 3 cs)
      else if c = 102 \<and> take 4 cs = py ''alse'' then Some (JBool False, drop 4 cs)
      else if c = 78 \<and> take 2 cs = py ''aN'' then Some (JFloat (py ''nan''), drop 2 cs)
      else if c = 73 \<and> take 7 cs = py ''nfinity'' then Some (JFloat (py ''inf''), drop 7 cs)
      else if c = 45 \<and> take 8 cs = py ''Infinity'' then Some (JFloat (py ''-inf''), drop 8 cs)
      else match_number float_of (c # cs))"
| "array_items float_of depth s =
     (case scan_once float_of depth s of
        None \<Rightarrow> None
      | Some (v, r) \<Rightarrow>
          (case skip_ws r of
             [] \<Rightarrow> None
           | d # ds \<Rightarrow>
               if d = 93 then Some ([v], ds)
               else if d = 44 \<and> length (skip_ws ds) < length s
               then prepend v (array_items float_of depth (skip_ws ds))
               else None))"
| "object_items float_of depth s =
     (case s of
        [] \<Rightarrow> None
      | q # s1 \<Rightarrow>
          if q \<noteq> 34 then None
          else
            (case scanstring s1 of
               None \<Rightarrow> None
             | Some (key, r1) \<Rightarrow>
                 (case skip_ws r1 of
                    [] \<Rightarrow> None
                  | colon # r2 \<Rightarrow>
                      if colon \<noteq> 58 then None
                      else
                        (case scan_once float_of depth (skip_ws r2) of
                           None \<Rightarrow> None
                         | Some (v, r3) \<Rightarrow>
                             (case skip_ws r3 of
                                [] \<Rightarrow> None
                              | d # ds \<Rightarrow>
                                  if d = 125 then Some ([(key, v)], ds)
                                  else if d = 44 \<and> length (skip_ws ds) < length s
                                  then prepend (key, v)
                                         (object_items float_of depth (skip_ws ds))
                                  else None)))))"
  by pat_completeness auto
termination
proof (relation "measure (\<lambda>x. case x of
          Inl (f, k, s) \<Rightarrow> 2 * length s
        | Inr (Inl (f, k, s)) \<Rightarrow> 2 * length s + 1
        | Inr (Inr (f, k, s)) \<Rightarrow> 2 * length s + 1)", goal_cases)
  case 1
  then show ?case by simp
next
  case (2 float_of depth c cs d ds)
  then show ?case using skip_ws_length [of cs] by simp
next
  case (3 float_of depth c cs d ds)
  then show ?case using skip_ws_length [of cs] by simp
next
  case (4 float_of depth s)
  then show ?case by simp
next
  case (5 float_of depth s x2 v r d ds)
  then show ?case by simp
next
  case (6 float_of depth s q s1 x2 key r1 colon r2)
  then show ?case
    using scanstring_length [of s1 key r1] skip_ws_length [of r1] skip_ws_length [of r2]
    by simp
next
  case (7 float_of depth s q s1 x2 key r1 colon r2 x2a v r3 d ds)
  then show ?case by simp
qed

text \<open>
  \<open>json.loads\<close>: white space, one value, white space, and nothing more.
\<close>


definition loads :: "(pystr \<Rightarrow> pystr) \<Rightarrow> nat \<Rightarrow> pystr \<Rightarrow> json option" where
  "loads float_of depth s =
     (case scan_once float_of depth (skip_ws s) of
        None \<Rightarrow> None
      | Some (obj, r) \<Rightarrow> if skip_ws r = [] then Some obj else None)"

section \<open>The wire protocol (server/protocol.py)\<close>


definition MAX_MESSAGE_SIZE :: nat where
  "MAX_MESSAGE_SIZE = 10 * 1024 * 1024"

text \<open>
  \<open>str.encode('utf-8')\<close> and \<open>bytes.decode('utf-8')\<close>, both strict: a surrogate
  cannot be encoded, and only well-formed byte sequences are decoded. \<open>None\<close> stands
  for the \<open>UnicodeError\<close> raised.
\<close>


definition utf8_char :: "nat \<Rightarrow> string option" where
  "utf8_char c =
     (if c < 128 then Some [char_of c]
      else if c < 2048 then Some [char_of (192 + c div 64), char_of (128 + c mod 64)]
      else if c < 65536 then
        (if 55296 \<le> c \<and> c \<le> 57343 then None
         else Some [char_of (224 + c div 4096), char_of (128 + c div 64 mod 64),
                    char_of (128 + c mod 64)])
      else if c < 1114112 then
        Some [char_of (240 + c div 262144), char_of (128 + c div 4096 mod 64),
              char_of (128 + c div 64 mod 64), char_of (128 + c mod 64)]
      else None)"

fun utf8_encode :: "pystr \<Rightarrow> string option" where
  "utf8_encode [] = Some []"
| "utf8_encode (c # cs) =
     (case utf8_char c of
        None \<Rightarrow> None
      | Some bs \<Rightarrow> (case utf8_encode cs of None \<Rightarrow> None | Some rest \<Rightarrow> Some (bs @ rest)))"

definition continuation :: "char \<Rightarrow> bool" where
  "continuation b \<longleftrightarrow> 128 \<le> (of_char b :: nat) \<and> (of_char b :: nat) \<le> 191"

definition tail_bits :: "char \<Rightarrow> nat" where
  "tail_bits b = of_char b - 128"

fun utf8_decode :: "string \<Rightarrow> pystr option" where
  "utf8_decode [] = Some []"
| "utf8_decode (b # bs) =
     (let b0 = of_char b :: nat in
      if b0 < 128 then map_option ((#) b0) (utf8_decode bs)
      else if 194 \<le> b0 \<and> b0 \<le> 223 then
        (case bs of
           b1 # r \<Rightarrow>
             if continuation b1
             then map_option ((#) ((b0 - 192) * 64 + tail_bits b1)) (utf8_decode r)
             else None
         | _ \<Rightarrow> None)
      else if 224 \<le> b0 \<and> b0 \<le> 239 then
        (case bs of
           b1 # b2 # r \<Rightarrow>
             (let cp = (b0 - 224) * 4096 + tail_bits b1 * 64 + tail_bits b2 in
              if continuation b1 \<and> continuation b2 \<and> 2048 \<le> cp \<and> (cp < 55296 \<or> 57343 < cp)
              then map_option ((#) cp) (utf8_decode r)
              else None)
         | _ \<Rightarrow> None)
      else if 240 \<le> b0 \<and> b0 \<le> 244 then
        (case bs of
           b1 # b2 # b3 # r \<Rightarrow>
             (let cp = (b0 - 240) * 262144 + tail_bits b1 * 4096 + tail_bits b2 * 64 + tail_bits b3 in
              if continuation b1 \<and> continuation b2 \<and> continuation b3 \<and> 65536 \<le> cp \<and> cp < 1114112
              then map_option ((#) cp) (utf8_decode r)
              else None)
         | _ \<Rightarrow> None)
      else None)"

text \<open>
  \<open>Protocol.encode_request\<close>, \<open>Protocol.encode_response\<close> and
  \<open>Protocol.decode\<close>. The absent \<open>error\<close> of a response is Python's \<open>None\<close>.
  Each takes the levels of recursion the interpreter allows at its call; \<open>None\<close> is
  the exception of \<open>json.dumps\<close>, of \<open>encode\<close>, of \<open>decode\<close> or of
  \<open>json.loads\<close>.
\<close>


definition request_message :: "pystr \<Rightarrow> json \<Rightarrow> json" where
  "request_message method params =
     JDict [(py ''type'', JStr (py ''request'')), (py ''method'', JStr method),
            (py ''params'', params)]"

definition encode_request :: "nat \<Rightarrow> pystr \<Rightarrow> json \<Rightarrow> string option" where
  "encode_request depth method params =
     (case json_dumps depth (request_message method params) of
        None \<Rightarrow> None
      | Some text \<Rightarrow> utf8_encode text)"

definition response_message :: "json \<Rightarrow> pystr option \<Rightarrow> json" where
  "response_message result error =
     JDict [(py ''type'', JStr (py ''response'')), (py ''result'', result),
            (py ''error'', (case error of None \<Rightarrow> JNull | Some text \<Rightarrow> JStr text))]"

definition encode_response :: "nat \<Rightarrow> json \<Rightarrow> pystr option \<Rightarrow> string option" where
  "encode_response depth result error =
     (case json_dumps depth (response_message result error) of
        None \<Rightarrow> None
      | Some text \<Rightarrow> utf8_encode text)"

definition decode :: "(pystr \<Rightarrow> pystr) \<Rightarrow> nat \<Rightarrow> string \<Rightarrow> json option" where
  "decode float_of depth data =
     (case utf8_decode data of None \<Rightarrow> None | Some text \<Rightarrow> loads float_of depth text)"

section \<open>The server (server/server.py)\<close>

text \<open>
  An exception is its class and the text \<open>str(e)\<close> gives. Only \<open>handle_sample\<close>
  looks at the class, and only at what \<open>int\<close> raises: \<open>DecodeError\<close> and
  \<open>EncodeError\<close> stand for whatever \<open>Protocol.decode\<close> and
  \<open>Protocol.encode_response\<close> raise.
\<close>


datatype exn_class =
  ValueError | TypeError | AttributeError | OverflowError | DecodeError | EncodeError

datatype exn = Exn exn_class pystr

fun exn_text :: "exn \<Rightarrow> pystr" where
  "exn_text (Exn cls text) = text"

fun is_ValueError :: "exn \<Rightarrow> bool" where
  "is_ValueError (Exn cls text) = (cls = ValueError)"

text \<open>
  What the handling of one received message takes from outside the program: the positions
  \<open>random.sample\<close> chooses; what \<open>open(file_path, ...)\<close> and \<open>readlines\<close> give,
  the lines or the text of the exception raised; whether leaving the \<open>with\<close> block
  closes the socket of the session; the text of the exception a failed decoding or
  encoding raises; the levels of recursion the interpreter allows to the decoder and to
  the encoder; the conversions of the interpreter on floats and from text to \<open>int\<close>;
  and the \<open>repr\<close> of a value.
\<close>


record env =
  env_draw :: "nat list"
  env_read_lines :: "json \<Rightarrow> pystr + pystr list"
  env_closes_socket :: "json \<Rightarrow> bool"
  env_decode_error :: "string \<Rightarrow> pystr"
  env_encode_error :: "json \<Rightarrow> pystr"
  env_decode_depth :: nat
  env_encode_depth :: nat
  env_float_of :: "pystr \<Rightarrow> pystr"
  env_float_trunc :: "pystr \<Rightarrow> int"
  env_int_of_str :: "pystr \<Rightarrow> int option"
  env_repr :: "json \<Rightarrow> pystr"

text \<open>
  The behaviour of the built-in operations the handlers apply to a decoded value: the
  name of its type, its truth value, \<open>str\<close> (in an f-string), \<open>int\<close>, and \<open>get\<close>,
  which only a dictionary has. The integers of a decoded value are within the digit limit,
  so that \<open>str\<close> does not raise on them. \<open>int\<close> of a float truncates toward zero,
  \<open>int\<close> of \<open>True\<close> is 1.
\<close>


fun type_name :: "json \<Rightarrow> pystr" where
  "type_name JNull = py ''NoneType''"
| "type_name (JBool b) = py ''bool''"
| "type_name (JInt i) = py ''int''"
| "type_name (JFloat r) = py ''float''"
| "type_name (JStr s) = py ''str''"
| "type_name (JList xs) = py ''list''"
| "type_name (JDict kvs) = py ''dict''"

fun truthy :: "json \<Rightarrow> bool" where
  "truthy JNull = False"
| "truthy (JBool b) = b"
| "truthy (JInt i) = (i \<noteq> 0)"
| "truthy (JFloat r) = (r \<noteq> py ''0.0'' \<and> r \<noteq> py ''-0.0'')"
| "truthy (JStr s) = (s \<noteq> [])"
| "truthy (JList xs) = (xs \<noteq> [])"
| "truthy (JDict kvs) = (kvs \<noteq> [])"

fun py_str :: "env \<Rightarrow> json \<Rightarrow> pystr" where
  "py_str env JNull = py ''None''"
| "py_str env (JBool b) = (if b then py ''True'' else py ''False'')"
| "py_str env (JInt i) = int_repr i"
| "py_str env (JFloat r) = r"
| "py_str env (JStr s) = s"
| "py_str env v = env_repr env v"

fun py_int :: "env \<Rightarrow> json \<Rightarrow> exn + int" where
  "py_int env (JInt i) = Inr i"
| "py_int env (JBool b) = Inr (if b then 1 else 0)"
| "py_int env (JFloat r) =
     (if r = py ''nan'' then Inl (Exn ValueError (py ''cannot convert float NaN to integer''))
      else if r = py ''inf'' \<or> r = py ''-inf''
      then Inl (Exn OverflowError (py ''cannot convert float infinity to integer''))
      else Inr (env_float_trunc env r))"
| "py_int env (JStr s) =
     (case env_int_of_str env s of
        Some i \<Rightarrow> Inr i
      | None \<Rightarrow>
          Inl (Exn ValueError (py ''invalid literal for int() with base 10: '' @ env_repr env (JStr s))))"
| "py_int env v =
     Inl (Exn TypeError
       (py ''int() argument must be a string, a bytes-like object or a real number, not ''
        @ [39] @ type_name v @ [39]))"

definition dict_get :: "json \<Rightarrow> pystr \<Rightarrow> json \<Rightarrow> exn + json" where
  "dict_get d key dflt =
     (case d of
        JDict kvs \<Rightarrow> Inr (case map_of kvs key of None \<Rightarrow> dflt | Some v \<Rightarrow> v)
      | _ \<Rightarrow> Inl (Exn AttributeError ([39] @ type_name d @ [39] @ py '' object has no attribute '' @ [39] @ py ''get'' @ [39])))"

text \<open>\<open>rstrip\<close> of the line feeds and carriage returns at the end of a line.\<close>


definition rstrip_newlines :: "pystr \<Rightarrow> pystr" where
  "rstrip_newlines s = rev (dropWhile (\<lambda>c. c = 10 \<or> c = 13) (rev s))"

text \<open>
  \<open>handle_load\<close> and \<open>handle_sample\<close> return the result dictionary or the exception
  they raise, with the store they leave. In \<open>handle_sample\<close> the inner \<open>case\<close> is the
  \<open>try\<close> block and the outer one its \<open>except ValueError\<close> clause.

  \<open>open\<close> takes a path or, when \<open>file_path\<close> is an integer (or \<open>true\<close>), an open
  file descriptor of the process, which it wraps and which leaving the \<open>with\<close> block
  closes. A path opens a descriptor of its own, so only a load by descriptor can close
  the socket of the session: \<open>closes_socket\<close> says whether a load does. What
  \<open>open\<close> and \<open>readlines\<close> give, for a path as for a descriptor, is the
  parameter \<open>env_read_lines\<close>.
\<close>

fun is_descriptor :: "json \<Rightarrow> bool" where
  "is_descriptor (JInt i) = True"
| "is_descriptor (JBool b) = True"
| "is_descriptor v = False"


definition handle_load :: "env \<Rightarrow> cache \<Rightarrow> json \<Rightarrow> (exn + json) \<times> cache" where
  "handle_load env c params =
     (case dict_get params (py ''file_path'') JNull of
        Inl e \<Rightarrow> (Inl e, c)
      | Inr file_path \<Rightarrow>
          if \<not> truthy file_path then (Inl (Exn ValueError (py ''Missing file_path parameter'')), c)
          else
            (case env_read_lines env file_path of
               Inl text \<Rightarrow> (Inl (Exn ValueError (py ''Error reading file: '' @ text)), c)
             | Inr lines \<Rightarrow>
                 (let (count, c') = add_lines c (map rstrip_newlines lines)
                  in (Inr (JDict [(py ''lines_read'', JInt count)]), c'))))"

definition closes_socket :: "env \<Rightarrow> json \<Rightarrow> bool" where
  "closes_socket env params \<longleftrightarrow>
     (case dict_get params (py ''file_path'') JNull of
        Inl e \<Rightarrow> False
      | Inr file_path \<Rightarrow>
          truthy file_path \<and> is_descriptor file_path \<and> env_closes_socket env file_path)"

definition handle_sample :: "env \<Rightarrow> cache \<Rightarrow> json \<Rightarrow> (exn + json) \<times> cache" where
  "handle_sample env c params =
     (case dict_get params (py ''n'') JNull of
        Inl e \<Rightarrow> (Inl e, c)
      | Inr n \<Rightarrow>
          if n = JNull then (Inl (Exn ValueError (py ''Missing n parameter'')), c)
          else
            (case (case py_int env n of
                     Inl e \<Rightarrow> Inl e
                   | Inr n' \<Rightarrow>
                       if n' < 0 then Inl (Exn ValueError (py ''n must be non-negative''))
                       else Inr n') of
               Inl e \<Rightarrow>
                 if is_ValueError e then (Inl (Exn ValueError (py ''n must be an integer'')), c)
                 else (Inl e, c)
             | Inr n' \<Rightarrow>
                 (let (lines, c') = sample (env_draw env) c n'
                  in (Inr (JDict [(py ''lines'', JList (map JStr lines))]), c'))))"

text \<open>
  The body of the inner \<open>try\<close> of \<open>handle_client\<close> up to the result.
\<close>

definition dispatch :: "env \<Rightarrow> cache \<Rightarrow> string \<Rightarrow> (exn + json) \<times> cache" where
  "dispatch env c data =
     (case decode (env_float_of env) (env_decode_depth env) data of
        None \<Rightarrow> (Inl (Exn DecodeError (env_decode_error env data)), c)
      | Some message \<Rightarrow>
          (case dict_get message (py ''type'') JNull of
             Inl e \<Rightarrow> (Inl e, c)
           | Inr type \<Rightarrow>
               if type \<noteq> JStr (py ''request'')
               then (Inl (Exn ValueError (py ''Invalid message type'')), c)
               else
                 (case dict_get message (py ''method'') JNull of
                    Inl e \<Rightarrow> (Inl e, c)
                  | Inr method \<Rightarrow>
                      (case dict_get message (py ''params'') (JDict []) of
                         Inl e \<Rightarrow> (Inl e, c)
                       | Inr params \<Rightarrow>
                           if method = JStr (py ''load'') then handle_load env c params
                           else if method = JStr (py ''sample'') then handle_sample env c params
                           else (Inl (Exn ValueError (py ''Unknown method: '' @ py_str env method)),
                                 c)))))"

text \<open>
  Whether the handling of a message closes the socket of the session: the message is a
  load request that does.
\<close>

definition socket_closed :: "env \<Rightarrow> string \<Rightarrow> bool" where
  "socket_closed env data \<longleftrightarrow>
     (case decode (env_float_of env) (env_decode_depth env) data of
        None \<Rightarrow> False
      | Some message \<Rightarrow>
          dict_get message (py ''type'') JNull = Inr (JStr (py ''request''))
          \<and> dict_get message (py ''method'') JNull = Inr (JStr (py ''load''))
          \<and> (case dict_get message (py ''params'') (JDict []) of
                Inl e \<Rightarrow> False
              | Inr params \<Rightarrow> closes_socket env params))"

text \<open>
  The two ways a response is made and sent. \<open>sendall\<close> is taken to succeed on an open
  socket. On a socket that the handling closed it raises in the \<open>try\<close> block and again
  in the \<open>except\<close> clause, and the exception leaves the loop; so does the exception of
  an error response that cannot be encoded. \<open>handle_message\<close> returns the response sent,
  or \<open>None\<close> when the exception leaves the loop.
\<close>

definition error_response :: "env \<Rightarrow> exn \<Rightarrow> string option" where
  "error_response env e = encode_response (env_encode_depth env) JNull (Some (exn_text e))"

definition handle_message :: "env \<Rightarrow> cache \<Rightarrow> string \<Rightarrow> string option \<times> cache" where
  "handle_message env c data =
     (case dispatch env c data of
        (outcome, c') \<Rightarrow>
          if socket_closed env data then (None, c')
          else
            (case outcome of
               Inl e \<Rightarrow> (error_response env e, c')
             | Inr result \<Rightarrow>
                 (case encode_response (env_encode_depth env) result None of
                    Some response \<Rightarrow> (Some response, c')
                  | None \<Rightarrow>
                      (error_response env (Exn EncodeError (env_encode_error env result)), c'))))"

text \<open>
  The loop of \<open>handle_client\<close>. Its input is the list of the byte strings the
  successive calls of \<open>recv\<close> return, each with the environment of its handling; an
  empty byte string is the peer's end of stream. \<open>recv\<close> is called with the buffer
  size \<open>MAX_MESSAGE_SIZE\<close> and returns at most that many bytes; the loop makes no
  other use of the constant. The result is the list of the responses sent and the store
  at the end. The session is taken alone: what the other sessions of the server do to
  the store and to the descriptors of the process in the meantime is not part of it.
\<close>


fun handle_client :: "cache \<Rightarrow> (env \<times> string) list \<Rightarrow> string list \<times> cache" where
  "handle_client c [] = ([], c)"
| "handle_client c ((env, data) # rest) =
     (if data = [] then ([], c)
      else
        (case handle_message env c data of
           (None, c') \<Rightarrow> ([], c')
         | (Some response, c') \<Rightarrow>
             (let (sent, c'') = handle_client c' rest in (response # sent, c''))))"

section \<open>Notions of the statements\<close>

text \<open>
  The values the protocol can represent: text made of Unicode scalar values (code points
  that are not surrogates), integers, booleans, null, lists, and dictionaries with
  pairwise different keys.
\<close>


definition scalar_value :: "nat \<Rightarrow> bool" where
  "scalar_value c \<longleftrightarrow> c < 1114112 \<and> (c < 55296 \<or> 57343 < c)"

fun representable :: "json \<Rightarrow> bool"
  and representable_list :: "json list \<Rightarrow> bool"
  and representable_items :: "(pystr \<times> json) list \<Rightarrow> bool" where
  "representable JNull = True"
| "representable (JBool b) = True"
| "representable (JInt i) = True"
| "representable (JFloat r) = False"
| "representable (JStr s) = list_all scalar_value s"
| "representable (JList xs) = representable_list xs"
| "representable (JDict kvs) = (distinct (map fst kvs) \<and> representable_items kvs)"
| "representable_list [] = True"
| "representable_list (x # xs) = (representable x \<and> representable_list xs)"
| "representable_items [] = True"
| "representable_items ((k, v) # kvs) = (list_all scalar_value k \<and> representable v \<and> representable_items kvs)"

text \<open>Values without floats, ASCII text, and the bytes of the JSON text of a value.\<close>


fun float_free :: "json \<Rightarrow> bool"
  and float_free_list :: "json list \<Rightarrow> bool"
  and float_free_items :: "(pystr \<times> json) list \<Rightarrow> bool" where
  "float_free (JFloat r) = False"
| "float_free (JList xs) = float_free_list xs"
| "float_free (JDict kvs) = float_free_items kvs"
| "float_free v = True"
| "float_free_list [] = True"
| "float_free_list (x # xs) = (float_free x \<and> float_free_list xs)"
| "float_free_items [] = True"
| "float_free_items ((k, v) # kvs) = (float_free v \<and> float_free_items kvs)"

definition ascii :: "pystr \<Rightarrow> bool" where
  "ascii s \<longleftrightarrow> list_all (\<lambda>c. c < 128) s"

definition wire :: "json \<Rightarrow> string" where
  "wire v = map char_of (dumps v)"

text \<open>What can follow a number, and what a serialised value can start with.\<close>


definition number_end :: "pystr \<Rightarrow> bool" where
  "number_end r = (case r of [] \<Rightarrow> True | c # cs \<Rightarrow> c = 44 \<or> c = 93 \<or> c = 125 \<or> is_ws c)"

definition value_start :: "nat \<Rightarrow> bool" where
  "value_start c \<longleftrightarrow>
     c = 34 \<or> c = 123 \<or> c = 91 \<or> c = 110 \<or> c = 116 \<or> c = 102 \<or> c = 45 \<or> is_digit c"

text \<open>
  A received message is a request for a method with given parameters when it decodes to
  a dictionary from which \<open>handle_client\<close> reads them.
\<close>


definition request_of :: "env \<Rightarrow> string \<Rightarrow> json \<Rightarrow> json \<Rightarrow> bool" where
  "request_of env data method params \<longleftrightarrow>
     (case decode (env_float_of env) (env_decode_depth env) data of
        None \<Rightarrow> False
      | Some message \<Rightarrow>
          dict_get message (py ''type'') JNull = Inr (JStr (py ''request''))
          \<and> dict_get message (py ''method'') JNull = Inr method
          \<and> dict_get message (py ''params'') (JDict []) = Inr params)"

text \<open>
  A length-prefixed frame, as the specification words it: an unsigned integer of a fixed
  width \<open>w\<close>, in either byte order, that gives the number of bytes after it.
\<close>


definition be_uint :: "string \<Rightarrow> nat" where
  "be_uint bs = foldl (\<lambda>a b. a * 256 + of_char b) 0 bs"

definition le_uint :: "string \<Rightarrow> nat" where
  "le_uint bs = be_uint (rev bs)"

definition length_prefixed :: "nat \<Rightarrow> string \<Rightarrow> bool" where
  "length_prefixed w frame \<longleftrightarrow>
     0 < w \<and> w \<le> length frame
     \<and> (be_uint (take w frame) = length frame - w \<or> le_uint (take w frame) = length frame - w)"

text \<open>
  An environment and a store for the examples. The only float of the examples is
  \<open>-0.5\<close>: the literal \<open>-0.5\<close> is its \<open>repr\<close>, and \<open>int(-0.5)\<close> is 0.
\<close>


definition demo_env :: env where
  "demo_env =
     \<lparr>env_draw = [1],
      env_read_lines = (\<lambda>path. Inl (py ''[Errno 2] No such file or directory'')),
      env_closes_socket = (\<lambda>path. False),
      env_decode_error = (\<lambda>data. py ''Expecting value: line 1 column 1 (char 0)''),
      env_encode_error = (\<lambda>result. py ''maximum recursion depth exceeded''),
      env_decode_depth = 900,
      env_encode_depth = 900,
      env_float_of = (\<lambda>literal. literal),
      env_float_trunc = (\<lambda>r. 0),
      env_int_of_str = (\<lambda>s. None),
      env_repr = (\<lambda>v. py ''[]'')\<rparr>"

definition demo_cache :: cache where
  "demo_cache = \<lparr>available_lines = [py ''a'', py ''b''], total_lines_loaded = 2\<rparr>"

section \<open>Properties of the line store\<close>

lemma random_sample_length:
  "valid_draw n k draw \<Longrightarrow> length (random_sample population k draw) = k"
  by (simp add: valid_draw_def random_sample_def)

lemma random_sample_subset:
  "valid_draw (length population) k draw \<Longrightarrow>
     set (random_sample population k draw) \<subseteq> set population"
  by (auto simp: valid_draw_def random_sample_def list_all_iff)

text \<open>
  C6: \<open>add_lines\<close> appends all \<open>m\<close> given lines to the available lines, keeping
  duplicates, adds \<open>m\<close> to the counter of loaded lines, returns \<open>m\<close>, and the
  size afterwards is the size before plus \<open>m\<close>.
\<close>

theorem add_lines_appends_all:
  "available_lines (snd (add_lines c lines)) = available_lines c @ lines
   \<and> mset (available_lines (snd (add_lines c lines))) = mset (available_lines c) + mset lines
   \<and> total_lines_loaded (snd (add_lines c lines)) = total_lines_loaded c + int (length lines)
   \<and> fst (add_lines c lines) = int (length lines)
   \<and> cache_size (snd (add_lines c lines)) = cache_size c + int (length lines)"
  by (simp add: add_lines_def cache_size_def)

lemma sample_total_unchanged:
  "total_lines_loaded (snd (sample draw c n)) = total_lines_loaded c"
  by (simp add: sample_def Let_def)

lemma sample_available_filter:
  "\<exists>P. available_lines (snd (sample draw c n)) = filter P (available_lines c)"
proof (cases "available_lines c = [] \<or> n \<le> 0")
  case True
  then have "available_lines (snd (sample draw c n)) = filter (\<lambda>_. True) (available_lines c)"
    by (simp add: sample_def)
  then show ?thesis by blast
next
  case False
  then show ?thesis by (auto simp: sample_def Let_def)
qed

lemma sample_available_length:
  "length (available_lines (snd (sample draw c n))) \<le> length (available_lines c)"
proof -
  obtain P where "available_lines (snd (sample draw c n)) = filter P (available_lines c)"
    using sample_available_filter by blast
  then show ?thesis by simp
qed

lemma apply_op_total_mono: "total_lines_loaded c \<le> total_lines_loaded (apply_op c op)"
  by (cases op) (simp_all add: add_lines_def sample_total_unchanged)

lemma apply_op_inv: "store_inv c \<Longrightarrow> store_inv (apply_op c op)"
proof (cases op)
  case (AddLines lines)
  assume "store_inv c"
  then show ?thesis using AddLines by (simp add: store_inv_def add_lines_def)
next
  case (Sample n draw)
  assume "store_inv c"
  then show ?thesis
    using Sample sample_available_length [of draw c n]
    by (simp add: store_inv_def sample_total_unchanged)
qed simp_all

lemma run_ops_inv: "store_inv c \<Longrightarrow> store_inv (run_ops c ops)"
  unfolding run_ops_def by (induction ops arbitrary: c) (simp_all add: apply_op_inv)

lemma distinct_positions_mset:
  assumes "distinct draw" and "\<forall>j\<in>set draw. j < length xs"
  shows "mset (map (\<lambda>j. xs ! j) draw) \<subseteq># mset xs"
proof -
  have "set draw \<subseteq> {0..<length xs}" using assms(2) by auto
  then have "mset_set (set draw) \<subseteq># mset_set {0..<length xs}"
    by (simp add: subset_imp_msubset_mset_set)
  then have "mset draw \<subseteq># mset [0..<length xs]"
    using assms(1) by (simp add: mset_set_set)
  then have "image_mset (\<lambda>j. xs ! j) (mset draw) \<subseteq># image_mset (\<lambda>j. xs ! j) (mset [0..<length xs])"
    by (rule image_mset_subseteq_mono)
  moreover have "image_mset (\<lambda>j. xs ! j) (mset [0..<length xs]) = mset xs"
    by (metis map_nth mset_map)
  ultimately show ?thesis by simp
qed

lemma sample_length:
  assumes "valid_draw (length (available_lines c))
             (nat (min n (int (length (available_lines c))))) draw"
  shows "int (length (fst (sample draw c n)))
           = (if n \<le> 0 then 0 else min n (int (length (available_lines c))))"
proof (cases "available_lines c = [] \<or> n \<le> 0")
  case True
  then show ?thesis by (auto simp: sample_def)
next
  case False
  then show ?thesis
    using random_sample_length [OF assms, of "available_lines c"]
    by (simp add: sample_def Let_def)
qed

text \<open>
  C1, at an input the code can receive: a store holding two lines of the same content
  \<open>a\<close>, asked for one line. The call returns one line, as the claim says, and leaves
  the store empty, where the claim says one line is left.
\<close>

theorem sample_duplicates_leave_too_few:
  "valid_draw 2 1 [0]
   \<and> fst (sample [0] \<lparr>available_lines = [py ''a'', py ''a''], total_lines_loaded = 2\<rparr> 1)
       = [py ''a'']
   \<and> cache_size (snd (sample [0] \<lparr>available_lines = [py ''a'', py ''a''], total_lines_loaded = 2\<rparr> 1))
       = 0
   \<and> cache_size \<lparr>available_lines = [py ''a'', py ''a''], total_lines_loaded = 2\<rparr>
       - min 1 (cache_size \<lparr>available_lines = [py ''a'', py ''a''], total_lines_loaded = 2\<rparr>)
       = 1"
  by (simp add: valid_draw_def sample_def random_sample_def cache_size_def py_def Let_def)

lemma sample_removes_by_content:
  "available_lines (snd (sample draw c n))
     = filter (\<lambda>line. line \<notin> set (fst (sample draw c n))) (available_lines c)"
  by (simp add: sample_def Let_def)

text \<open>
  C2, at an input the code can receive: the store holds \<open>a\<close>, \<open>b\<close>, \<open>a\<close> and the
  generator selects position 0 only. The line at position 2 was not selected, has the
  content of the sampled line, and is gone from the store after the call.
\<close>

theorem sample_removes_unselected_duplicate:
  "valid_draw 3 1 [0]
   \<and> fst (sample [0] \<lparr>available_lines = [py ''a'', py ''b'', py ''a''], total_lines_loaded = 3\<rparr> 1)
       = [py ''a'']
   \<and> available_lines
        (snd (sample [0] \<lparr>available_lines = [py ''a'', py ''b'', py ''a''], total_lines_loaded = 3\<rparr> 1))
       = [py ''b'']"
  by (simp add: valid_draw_def sample_def random_sample_def py_def Let_def)

text \<open>
  C9: the invariant (the number of available lines is at most the counter of loaded
  lines) holds initially, is preserved by each of the four operations and so holds
  after every sequence of them; the counter never decreases; \<open>size\<close> and \<open>get_stats\<close>
  leave the available lines as they are, a sample never adds a line and \<open>add_lines\<close>
  never removes one.
\<close>

theorem store_invariant_preserved:
  "store_inv init_cache
   \<and> (store_inv c \<longrightarrow> store_inv (apply_op c op))
   \<and> store_inv (run_ops init_cache ops)
   \<and> total_lines_loaded c \<le> total_lines_loaded (apply_op c op)
   \<and> available_lines (apply_op c Size) = available_lines c
   \<and> available_lines (apply_op c Stats) = available_lines c
   \<and> length (available_lines (apply_op c (Sample n draw))) \<le> length (available_lines c)
   \<and> length (available_lines c) \<le> length (available_lines (apply_op c (AddLines lines)))"
proof -
  have init: "store_inv init_cache" by (simp add: store_inv_def init_cache_def)
  have "length (available_lines c) \<le> length (available_lines (apply_op c (AddLines lines)))"
    by (simp add: add_lines_def)
  then show ?thesis
    using init apply_op_inv [of c op] run_ops_inv [OF init, of ops] apply_op_total_mono [of c op]
      sample_available_length [of draw c n]
    by simp
qed

theorem store_invariant_preserved_witness:
  "store_inv \<lparr>available_lines = [py ''a'', py ''b''], total_lines_loaded = 5\<rparr>
   \<and> store_inv (apply_op \<lparr>available_lines = [py ''a'', py ''b''], total_lines_loaded = 5\<rparr>
        (Sample 1 [1]))
   \<and> available_lines (apply_op \<lparr>available_lines = [py ''a'', py ''b''], total_lines_loaded = 5\<rparr>
        (Sample 1 [1])) = [py ''a'']"
proof -
  have h: "store_inv \<lparr>available_lines = [py ''a'', py ''b''], total_lines_loaded = 5\<rparr>"
    by (simp add: store_inv_def)
  have e: "available_lines (apply_op \<lparr>available_lines = [py ''a'', py ''b''], total_lines_loaded = 5\<rparr>
        (Sample 1 [1])) = [py ''a'']"
    by (simp add: sample_def random_sample_def py_def Let_def)
  show ?thesis
    using h e store_invariant_preserved
      [of "\<lparr>available_lines = [py ''a'', py ''b''], total_lines_loaded = 5\<rparr>" "Sample 1 [1]"]
    by blast
qed

text \<open>
  C10: for every store, every integer \<open>n\<close> and every choice of the generator, the lines
  \<open>sample\<close> returns are lines of the store before the call (with their multiplicity),
  the lines left are a sub-multiset of the lines before, and at most \<open>max(n, 0)\<close> lines
  are returned.
\<close>

theorem sample_never_fabricates:
  assumes "valid_draw (length (available_lines c))
             (nat (min n (int (length (available_lines c))))) draw"
  shows "set (fst (sample draw c n)) \<subseteq> set (available_lines c)
         \<and> mset (fst (sample draw c n)) \<subseteq># mset (available_lines c)
         \<and> mset (available_lines (snd (sample draw c n))) \<subseteq># mset (available_lines c)
         \<and> int (length (fst (sample draw c n))) \<le> max n 0"
proof -
  obtain P where P: "available_lines (snd (sample draw c n)) = filter P (available_lines c)"
    using sample_available_filter by blast
  have rest: "mset (available_lines (snd (sample draw c n))) \<subseteq># mset (available_lines c)"
    unfolding P by simp
  show ?thesis
  proof (cases "available_lines c = [] \<or> n \<le> 0")
    case True
    then show ?thesis using rest by (simp add: sample_def)
  next
    case False
    then have res: "fst (sample draw c n)
        = random_sample (available_lines c) (nat (min n (int (length (available_lines c))))) draw"
      by (simp add: sample_def Let_def)
    have sub: "mset (fst (sample draw c n)) \<subseteq># mset (available_lines c)"
      unfolding res random_sample_def
      using assms by (intro distinct_positions_mset) (simp_all add: valid_draw_def list_all_iff)
    have len: "length (fst (sample draw c n)) = nat (min n (int (length (available_lines c))))"
      unfolding res using assms by (rule random_sample_length)
    have "int (length (fst (sample draw c n))) \<le> max n 0"
      unfolding len by simp
    then show ?thesis using sub rest set_mset_mono [OF sub] by simp
  qed
qed

theorem sample_never_fabricates_witness:
  "valid_draw 3 2 [2, 0]
   \<and> fst (sample [2, 0] \<lparr>available_lines = [py ''a'', py ''b'', py ''c''], total_lines_loaded = 3\<rparr> 2)
       = [py ''c'', py ''a'']
   \<and> mset (fst (sample [2, 0] \<lparr>available_lines = [py ''a'', py ''b'', py ''c''], total_lines_loaded = 3\<rparr> 2))
       \<subseteq># mset [py ''a'', py ''b'', py ''c'']"
proof -
  have v: "valid_draw 3 2 [2, 0]" by (simp add: valid_draw_def)
  have e: "fst (sample [2, 0] \<lparr>available_lines = [py ''a'', py ''b'', py ''c''], total_lines_loaded = 3\<rparr> 2)
       = [py ''c'', py ''a'']"
    by (simp add: sample_def random_sample_def Let_def)
  have "valid_draw (length (available_lines \<lparr>available_lines = [py ''a'', py ''b'', py ''c''], total_lines_loaded = 3\<rparr>))
          (nat (min 2 (int (length (available_lines \<lparr>available_lines = [py ''a'', py ''b'', py ''c''], total_lines_loaded = 3\<rparr>))))) [2, 0]"
    by (simp add: valid_draw_def)
  from sample_never_fabricates [OF this] v e show ?thesis by simp
qed

section \<open>Decoding what was encoded\<close>

subsection \<open>Strings\<close>


lemma hex_value_hex_digit: "d < 16 \<Longrightarrow> hex_value (hex_digit d) = Some d"
  by (simp add: hex_value_def hex_digit_def)

lemma hex4_value:
  assumes "(n::nat) < 65536"
  shows "((n div 4096 mod 16 * 16 + n div 256 mod 16) * 16 + n div 16 mod 16) * 16 + n mod 16 = n"
proof -
  have a: "n div 4096 mod 16 = n div 4096" using assms by simp
  have b0: "n div 4096 = n div 256 div 16" using div_mult2_eq [of n 256 16] by simp
  have c0: "n div 256 = n div 16 div 16" using div_mult2_eq [of n 16 16] by simp
  have b: "n div 4096 * 16 + n div 256 mod 16 = n div 256"
    unfolding b0 by simp
  have c: "n div 256 * 16 + n div 16 mod 16 = n div 16"
    unfolding c0 by simp
  have d: "n div 16 * 16 + n mod 16 = n"
    by simp
  show ?thesis unfolding a b c d ..
qed

lemma decode_hex4: "n < 65536 \<Longrightarrow> decode_uXXXX (hex4 n @ r) = Some n"
  using hex4_value [of n] by (simp add: hex4_def hex_value_hex_digit)

lemma length_hex4: "length (hex4 n) = 4"
  by (simp add: hex4_def)

lemma scanstring_quote: "scanstring (34 # cs) = Some ([], cs)"
  by simp

lemma scanstring_plain:
  "c \<noteq> 34 \<Longrightarrow> c \<noteq> 92 \<Longrightarrow> 32 \<le> c \<Longrightarrow> scanstring (c # cs) = prepend c (scanstring cs)"
  by simp

lemma scanstring_backslash:
  "esc \<noteq> 117 \<Longrightarrow> backslash esc = Some ch \<Longrightarrow>
     scanstring (92 # esc # cs) = prepend ch (scanstring cs)"
  by simp

lemma scanstring_u:
  "decode_uXXXX cs = Some uni \<Longrightarrow> uni < 55296 \<or> 56319 < uni \<Longrightarrow>
     scanstring (92 # 117 # cs) = prepend uni (scanstring (drop 4 cs))"
  by auto

lemma scanstring_pair:
  "decode_uXXXX cs = Some uni \<Longrightarrow> 55296 \<le> uni \<Longrightarrow> uni \<le> 56319 \<Longrightarrow>
   take 2 (drop 4 cs) = [92, 117] \<Longrightarrow> decode_uXXXX (drop 6 cs) = Some uni2 \<Longrightarrow>
   56320 \<le> uni2 \<Longrightarrow> uni2 \<le> 57343 \<Longrightarrow>
     scanstring (92 # 117 # cs)
       = prepend (65536 + ((uni - 55296) * 1024 + (uni2 - 56320))) (scanstring (drop 10 cs))"
  by simp

declare scanstring.simps [simp del]

lemma escape_char_short:
  "c = 34 \<or> c = 92 \<or> c = 8 \<or> c = 12 \<or> c = 10 \<or> c = 13 \<or> c = 9 \<Longrightarrow>
     scanstring (escape_char c @ s) = prepend c (scanstring s)"
  by (auto simp: escape_char_def backslash_def scanstring_backslash)

lemma escape_char_plain:
  "32 \<le> c \<Longrightarrow> c \<le> 126 \<Longrightarrow> c \<noteq> 34 \<Longrightarrow> c \<noteq> 92 \<Longrightarrow>
     scanstring (escape_char c @ s) = prepend c (scanstring s)"
  by (simp add: escape_char_def scanstring_plain)

lemma escape_char_bmp:
  assumes "c < 32 \<or> 126 < c" "c < 65536" "c < 55296 \<or> 57343 < c"
    and "\<not> (c = 8 \<or> c = 12 \<or> c = 10 \<or> c = 13 \<or> c = 9)"
  shows "scanstring (escape_char c @ s) = prepend c (scanstring s)"
proof -
  have e: "escape_char c = [92, 117] @ hex4 c"
    using assms by (auto simp: escape_char_def)
  have ns: "c < 55296 \<or> 56319 < c" using assms(3) by auto
  have "scanstring (92 # 117 # hex4 c @ s) = prepend c (scanstring (drop 4 (hex4 c @ s)))"
    by (rule scanstring_u [OF decode_hex4 [OF assms(2)] ns])
  then show ?thesis
    unfolding e by (simp add: length_hex4)
qed

lemma escape_char_astral:
  assumes "65536 \<le> c" "c < 1114112"
  shows "scanstring (escape_char c @ s) = prepend c (scanstring s)"
proof -
  define x where "x = c - 65536"
  define hi where "hi = 55296 + x div 1024 mod 1024"
  define lo where "lo = 56320 + x mod 1024"
  define cs where "cs = hex4 hi @ [92, 117] @ hex4 lo @ s"
  have x: "x < 1048576" using assms by (simp add: x_def)
  have e: "escape_char c = [92, 117] @ hex4 hi @ [92, 117] @ hex4 lo"
    using assms by (simp add: escape_char_def hi_def lo_def x_def)
  have hi: "55296 \<le> hi" "hi \<le> 56319" "hi < 65536" by (simp_all add: hi_def)
  have lo: "56320 \<le> lo" "lo \<le> 57343" "lo < 65536" by (simp_all add: lo_def)
  have joined: "65536 + ((hi - 55296) * 1024 + (lo - 56320)) = c"
    using x assms by (simp add: hi_def lo_def x_def)
  have d1: "decode_uXXXX cs = Some hi"
    unfolding cs_def by (rule decode_hex4 [OF hi(3)])
  have t: "take 2 (drop 4 cs) = [92, 117]"
    by (simp add: cs_def length_hex4)
  have d6: "drop 6 cs = hex4 lo @ s"
    by (simp add: cs_def length_hex4)
  have d2: "decode_uXXXX (drop 6 cs) = Some lo"
    unfolding d6 by (rule decode_hex4 [OF lo(3)])
  have d10: "drop 10 cs = s"
    by (simp add: cs_def length_hex4)
  have "scanstring (92 # 117 # cs) = prepend c (scanstring s)"
    using scanstring_pair [OF d1 hi(1) hi(2) t d2 lo(1) lo(2)] by (simp add: joined d10)
  then show ?thesis
    unfolding e by (simp add: cs_def)
qed

lemma scanstring_escape_char:
  assumes "scalar_value c"
  shows "scanstring (escape_char c @ s) = prepend c (scanstring s)"
proof (cases "c = 34 \<or> c = 92 \<or> c = 8 \<or> c = 12 \<or> c = 10 \<or> c = 13 \<or> c = 9")
  case True
  then show ?thesis by (rule escape_char_short)
next
  case short: False
  show ?thesis
  proof (cases "32 \<le> c \<and> c \<le> 126")
    case True
    then show ?thesis using short by (intro escape_char_plain) auto
  next
    case notplain: False
    show ?thesis
    proof (cases "c < 65536")
      case True
      then show ?thesis
        using short notplain assms
        by (intro escape_char_bmp) (auto simp: scalar_value_def)
    next
      case False
      then show ?thesis
        using assms by (intro escape_char_astral) (auto simp: scalar_value_def)
    qed
  qed
qed

lemma scanstring_escaped:
  "list_all scalar_value str \<Longrightarrow>
     scanstring (concat (map escape_char str) @ 34 # r) = Some (str, r)"
  by (induction str) (simp_all add: scanstring_quote scanstring_escape_char prepend_def)

subsection \<open>Integers\<close>


lemma nat_repr_digits: "list_all is_digit (nat_repr n)"
proof (induction n rule: nat_repr.induct)
  case (1 n)
  show ?case
  proof (cases "n < 10")
    case True
    then show ?thesis by (simp add: nat_repr.simps [of n] is_digit_def)
  next
    case False
    then have "list_all is_digit (nat_repr (n div 10))" by (rule "1.IH")
    moreover have "is_digit (48 + n mod 10)" by (simp add: is_digit_def)
    ultimately show ?thesis using False by (simp add: nat_repr.simps [of n])
  qed
qed

lemma nat_repr_nonempty: "nat_repr n \<noteq> []"
  by (subst nat_repr.simps) simp

lemma nat_repr_zero: "nat_repr 0 = [48]"
  by (simp add: nat_repr.simps)

lemma nat_repr_head: "0 < n \<Longrightarrow> \<exists>c cs. nat_repr n = c # cs \<and> 49 \<le> c \<and> c \<le> 57"
proof (induction n rule: nat_repr.induct)
  case (1 n)
  show ?case
  proof (cases "n < 10")
    case True
    then show ?thesis using "1.prems" by (simp add: nat_repr.simps [of n])
  next
    case False
    then have "0 < n div 10" by simp
    with False "1.IH" obtain c cs where "nat_repr (n div 10) = c # cs" "49 \<le> c" "c \<le> 57"
      by blast
    then show ?thesis using False by (simp add: nat_repr.simps [of n])
  qed
qed

lemma digits_value_snoc: "digits_value (ds @ [d]) = digits_value ds * 10 + (d - 48)"
  by (simp add: digits_value_def)

lemma digits_value_nat_repr: "digits_value (nat_repr n) = n"
proof (induction n rule: nat_repr.induct)
  case (1 n)
  show ?case
  proof (cases "n < 10")
    case True
    then show ?thesis by (simp add: nat_repr.simps [of n] digits_value_def)
  next
    case False
    then have "digits_value (nat_repr (n div 10)) = n div 10" by (rule "1.IH")
    then show ?thesis using False by (simp add: nat_repr.simps [of n] digits_value_snoc)
  qed
qed

lemma takeWhile_digits: "list_all is_digit ds \<Longrightarrow> number_end r \<Longrightarrow> takeWhile is_digit (ds @ r) = ds"
  by (induction ds) (auto simp: number_end_def is_digit_def is_ws_def split: list.splits)

lemma number_end_no_frac: "number_end r \<Longrightarrow> match_frac r = []"
  by (auto simp: number_end_def match_frac_def is_ws_def split: list.splits)

lemma number_end_no_exp: "number_end r \<Longrightarrow> match_exp r = []"
  by (auto simp: number_end_def match_exp_def is_ws_def split: list.splits)

lemma match_integer_nat_repr:
  assumes "number_end r"
  shows "match_integer (nat_repr n @ r) = nat_repr n"
proof (cases "n = 0")
  case True
  then show ?thesis by (simp add: nat_repr_zero match_integer_def)
next
  case False
  then obtain c cs where c: "nat_repr n = c # cs" "49 \<le> c" "c \<le> 57"
    using nat_repr_head [of n] by auto
  have "takeWhile is_digit (nat_repr n @ r) = nat_repr n"
    using nat_repr_digits assms by (rule takeWhile_digits)
  then show ?thesis using c by (simp add: match_integer_def)
qed

lemma match_sign_nat_repr: "match_sign (nat_repr n @ r) = []"
proof -
  obtain c cs where c: "nat_repr n = c # cs" using nat_repr_nonempty [of n] by (cases "nat_repr n") auto
  have "is_digit c" using nat_repr_digits [of n] c by simp
  then show ?thesis using c by (simp add: match_sign_def is_digit_def)
qed

lemma match_number_nat:
  assumes "number_end r" and "length (nat_repr n) \<le> int_max_str_digits"
  shows "match_number f (nat_repr n @ r) = Some (JInt (int n), r)"
  using assms(2)
  by (simp add: match_number_def match_sign_nat_repr match_integer_nat_repr [OF assms(1)]
      nat_repr_nonempty number_end_no_frac [OF assms(1)] number_end_no_exp [OF assms(1)]
      digits_value_nat_repr)

lemma match_number_neg:
  assumes "number_end r" and "length (nat_repr n) \<le> int_max_str_digits"
  shows "match_number f (45 # nat_repr n @ r) = Some (JInt (- int n), r)"
  using assms(2)
  by (simp add: match_number_def match_sign_def match_integer_nat_repr [OF assms(1)]
      nat_repr_nonempty number_end_no_frac [OF assms(1)] number_end_no_exp [OF assms(1)]
      digits_value_nat_repr)

lemma match_number_int_repr:
  assumes "number_end r" and "int_digits i \<le> int_max_str_digits"
  shows "match_number f (int_repr i @ r) = Some (JInt i, r)"
proof (cases "i < 0")
  case True
  then have "nat \<bar>i\<bar> = nat (- i)" by simp
  then have "length (nat_repr (nat (- i))) \<le> int_max_str_digits"
    using assms(2) by (simp add: int_digits_def)
  then show ?thesis
    using True match_number_neg [OF assms(1), of "nat (- i)" f] by (simp add: int_repr_def)
next
  case False
  then have "nat \<bar>i\<bar> = nat i" by simp
  then have "length (nat_repr (nat i)) \<le> int_max_str_digits"
    using assms(2) by (simp add: int_digits_def)
  then show ?thesis
    using False match_number_nat [OF assms(1), of "nat i" f] by (simp add: int_repr_def)
qed

subsection \<open>Values\<close>


lemma scan_once_string:
  "scan_once f lv (34 # cs) = (case scanstring cs of None \<Rightarrow> None | Some (str, r) \<Rightarrow> Some (JStr str, r))"
  by simp

lemma scan_once_object:
  "scan_once f lv (123 # cs) =
     (if lv = 0 then None
      else
        (case skip_ws cs of
           [] \<Rightarrow> None
         | d # ds \<Rightarrow>
             if d = 125 then Some (JDict [], ds)
             else (case object_items f (lv - 1) (d # ds) of
                     None \<Rightarrow> None
                   | Some (pairs, r) \<Rightarrow> Some (JDict (dict_of_pairs pairs), r))))"
  by simp

lemma scan_once_array:
  "scan_once f lv (91 # cs) =
     (if lv = 0 then None
      else
        (case skip_ws cs of
           [] \<Rightarrow> None
         | d # ds \<Rightarrow>
             if d = 93 then Some (JList [], ds)
             else (case array_items f (lv - 1) (d # ds) of
                     None \<Rightarrow> None
                   | Some (values, r) \<Rightarrow> Some (JList values, r))))"
  by simp

lemma scan_once_null: "scan_once f lv (py ''null'' @ r) = Some (JNull, r)"
  by (simp add: py_def)

lemma scan_once_true: "scan_once f lv (py ''true'' @ r) = Some (JBool True, r)"
  by (simp add: py_def)

lemma scan_once_false: "scan_once f lv (py ''false'' @ r) = Some (JBool False, r)"
  by (simp add: py_def)

lemma scan_once_digit: "is_digit c \<Longrightarrow> scan_once f lv (c # cs) = match_number f (c # cs)"
  by (auto simp: is_digit_def)

lemma scan_once_minus_digit:
  "is_digit d \<Longrightarrow> scan_once f lv (45 # d # cs) = match_number f (45 # d # cs)"
  by (auto simp: is_digit_def py_def)

declare scan_once.simps [simp del] array_items.simps [simp del] object_items.simps [simp del]

lemma scan_once_int_repr:
  assumes "number_end r" and "int_digits i \<le> int_max_str_digits"
  shows "scan_once f lv (int_repr i @ r) = Some (JInt i, r)"
proof -
  have "scan_once f lv (int_repr i @ r) = match_number f (int_repr i @ r)"
  proof (cases "i < 0")
    case True
    obtain d ds where d: "nat_repr (nat (- i)) = d # ds"
      using nat_repr_nonempty [of "nat (- i)"] by (cases "nat_repr (nat (- i))") auto
    have "is_digit d" using nat_repr_digits [of "nat (- i)"] d by simp
    then show ?thesis using True d by (simp add: int_repr_def scan_once_minus_digit)
  next
    case False
    obtain d ds where d: "nat_repr (nat i) = d # ds"
      using nat_repr_nonempty [of "nat i"] by (cases "nat_repr (nat i)") auto
    have "is_digit d" using nat_repr_digits [of "nat i"] d by simp
    then show ?thesis using False d by (simp add: int_repr_def scan_once_digit)
  qed
  then show ?thesis by (simp add: match_number_int_repr [OF assms])
qed

lemma scan_once_basestring:
  "list_all scalar_value s \<Longrightarrow> scan_once f lv (encode_basestring_ascii s @ r) = Some (JStr s, r)"
  by (simp add: encode_basestring_ascii_def scan_once_string scanstring_escaped)

lemma value_start_skip: "value_start c \<Longrightarrow> skip_ws (c # cs) = c # cs"
  by (auto simp: value_start_def skip_ws_def is_ws_def is_digit_def)

lemma value_start_skip_space: "value_start c \<Longrightarrow> skip_ws (32 # c # cs) = c # cs"
  by (auto simp: value_start_def skip_ws_def is_ws_def is_digit_def)

lemma dumps_start: "representable v \<Longrightarrow> \<exists>c cs. dumps v = c # cs \<and> value_start c"
proof (cases v)
  case (JInt i)
  show ?thesis
  proof (cases "i < 0")
    case True
    then show ?thesis using JInt by (simp add: int_repr_def value_start_def)
  next
    case False
    obtain d ds where d: "nat_repr (nat i) = d # ds"
      using nat_repr_nonempty [of "nat i"] by (cases "nat_repr (nat i)") auto
    have "is_digit d" using nat_repr_digits [of "nat i"] d by simp
    then show ?thesis using False JInt d by (simp add: int_repr_def value_start_def)
  qed
qed (auto simp: value_start_def py_def encode_basestring_ascii_def)

lemma basestring_start: "\<exists>cs. encode_basestring_ascii k = 34 # cs"
  by (simp add: encode_basestring_ascii_def)

lemma dumps_list_start:
  "representable_list (x # xs) \<Longrightarrow> \<exists>c cs. dumps_list (x # xs) = c # cs \<and> value_start c"
  using dumps_start [of x] by (cases xs) auto

lemma update_fresh: "k \<notin> fst ` set al \<Longrightarrow> AList.update k v al = al @ [(k, v)]"
  by (induction al) auto

lemma dict_of_pairs_distinct_aux:
  "distinct (map fst (acc @ pairs)) \<Longrightarrow>
     foldl (\<lambda>d (k, v). AList.update k v d) acc pairs = acc @ pairs"
proof (induction pairs arbitrary: acc)
  case Nil
  then show ?case by simp
next
  case (Cons p pairs)
  obtain k v where p: "p = (k, v)" by (cases p)
  have fresh: "k \<notin> fst ` set acc" using Cons.prems p by auto
  have "distinct (map fst ((acc @ [(k, v)]) @ pairs))" using Cons.prems p by simp
  then have "foldl (\<lambda>d (k, v). AList.update k v d) (acc @ [(k, v)]) pairs = (acc @ [(k, v)]) @ pairs"
    by (rule Cons.IH)
  then show ?case using p by (simp add: update_fresh [OF fresh])
qed

lemma dict_of_pairs_distinct: "distinct (map fst pairs) \<Longrightarrow> dict_of_pairs pairs = pairs"
  using dict_of_pairs_distinct_aux [of "[]" pairs] by (simp add: dict_of_pairs_def)

lemma number_end_simps:
  "number_end []" "number_end (44 # r)" "number_end (93 # r)" "number_end (125 # r)"
  by (simp_all add: number_end_def)

lemma array_items_last:
  assumes "scan_once f lv (s @ 93 # r) = Some (x, 93 # r)"
  shows "array_items f lv (s @ 93 # r) = Some ([x], r)"
  by (subst array_items.simps) (simp add: assms skip_ws_def is_ws_def)

lemma array_items_more:
  assumes "scan_once f lv (s @ 44 # 32 # c # cs) = Some (x, 44 # 32 # c # cs)" and "value_start c"
  shows "array_items f lv (s @ 44 # 32 # c # cs) = prepend x (array_items f lv (c # cs))"
proof -
  have a: "skip_ws (44 # 32 # c # cs) = 44 # 32 # c # cs" by (simp add: skip_ws_def is_ws_def)
  show ?thesis
    by (subst array_items.simps) (simp add: assms(1) a value_start_skip_space [OF assms(2)])
qed

lemma object_items_last:
  assumes "list_all scalar_value k" and "value_start c"
    and "scan_once f lv (c # cs @ 125 # r) = Some (v, 125 # r)"
  shows "object_items f lv (encode_basestring_ascii k @ 58 # 32 # c # cs @ 125 # r) = Some ([(k, v)], r)"
proof -
  have a: "skip_ws (58 # 32 # c # cs @ 125 # r) = 58 # 32 # c # cs @ 125 # r"
    by (simp add: skip_ws_def is_ws_def)
  have b: "skip_ws (125 # r) = 125 # r" by (simp add: skip_ws_def is_ws_def)
  show ?thesis
    by (subst object_items.simps)
      (simp add: encode_basestring_ascii_def scanstring_escaped [OF assms(1)] a b
        value_start_skip_space [OF assms(2)] assms(3))
qed

lemma object_items_more:
  assumes "list_all scalar_value k" and "value_start c"
    and "scan_once f lv (c # cs @ 44 # 32 # 34 # t) = Some (v, 44 # 32 # 34 # t)"
  shows "object_items f lv (encode_basestring_ascii k @ 58 # 32 # c # cs @ 44 # 32 # 34 # t)
           = prepend (k, v) (object_items f lv (34 # t))"
proof -
  have a: "skip_ws (58 # 32 # c # cs @ 44 # 32 # 34 # t) = 58 # 32 # c # cs @ 44 # 32 # 34 # t"
    by (simp add: skip_ws_def is_ws_def)
  have b: "skip_ws (44 # 32 # 34 # t) = 44 # 32 # 34 # t" by (simp add: skip_ws_def is_ws_def)
  have c: "skip_ws (32 # 34 # t) = 34 # t" by (simp add: skip_ws_def is_ws_def)
  show ?thesis
    by (subst object_items.simps)
      (simp add: encode_basestring_ascii_def scanstring_escaped [OF assms(1)] a b c
        value_start_skip_space [OF assms(2)] assms(3))
qed

lemma value_start_not_close: "value_start c \<Longrightarrow> c \<noteq> 93 \<and> c \<noteq> 125"
  by (auto simp: value_start_def is_digit_def)

lemma dumps_items_start: "\<exists>t. dumps_items (p # ps) = 34 # t"
proof -
  obtain k v where p: "p = (k, v)" by (cases p)
  show ?thesis using p by (cases ps) (auto simp: encode_basestring_ascii_def)
qed

lemma scan_once_dumps:
  "representable v \<Longrightarrow> within_limits lv v \<Longrightarrow> number_end r \<Longrightarrow>
     scan_once f lv (dumps v @ r) = Some (v, r)"
  "representable_list xs \<Longrightarrow> within_limits_list lv1 xs \<Longrightarrow> xs \<noteq> [] \<Longrightarrow>
     array_items f lv1 (dumps_list xs @ 93 # r1) = Some (xs, r1)"
  "representable_items kvs \<Longrightarrow> within_limits_items lv2 kvs \<Longrightarrow> kvs \<noteq> [] \<Longrightarrow>
     object_items f lv2 (dumps_items kvs @ 125 # r2) = Some (kvs, r2)"
proof (induction v and xs and kvs arbitrary: r lv and r1 lv1 and r2 lv2
    rule: dumps_dumps_list_dumps_items.induct)
  case 1
  then show ?case by (simp add: scan_once_null)
next
  case (2 b)
  then show ?case by (simp add: scan_once_true scan_once_false)
next
  case (3 i)
  then show ?case by (simp add: scan_once_int_repr)
next
  case (4 r)
  then show ?case by simp
next
  case (5 s)
  then show ?case by (simp add: scan_once_basestring)
next
  case (6 xs)
  have lv: "lv \<noteq> 0" and lim: "within_limits_list (lv - 1) xs" using "6.prems" by simp_all
  show ?case
  proof (cases xs)
    case Nil
    then show ?thesis using lv by (simp add: scan_once_array skip_ws_def is_ws_def)
  next
    case (Cons x xs')
    have rep: "representable_list xs" using "6.prems" by simp
    have ne: "xs \<noteq> []" using Cons by simp
    obtain c cs where c: "dumps_list xs = c # cs" "value_start c"
      using dumps_list_start rep Cons by blast
    have items: "array_items f (lv - 1) (c # cs @ 93 # r) = Some (xs, r)"
      using "6.IH" [OF rep lim ne, of r] c by simp
    show ?thesis
      using c lv items value_start_not_close [OF c(2)]
      by (simp add: scan_once_array value_start_skip [OF c(2)])
  qed
next
  case (7 kvs)
  have lv: "lv \<noteq> 0" and lim: "within_limits_items (lv - 1) kvs" using "7.prems" by simp_all
  show ?case
  proof (cases kvs)
    case Nil
    then show ?thesis using lv by (simp add: scan_once_object skip_ws_def is_ws_def)
  next
    case (Cons p ps)
    have rep: "representable_items kvs" and dist: "distinct (map fst kvs)"
      using "7.prems" by simp_all
    have ne: "kvs \<noteq> []" using Cons by simp
    obtain t where t: "dumps_items kvs = 34 # t"
      using dumps_items_start Cons by blast
    have items: "object_items f (lv - 1) (34 # t @ 125 # r) = Some (kvs, r)"
      using "7.IH" [OF rep lim ne, of r] t by simp
    have sk: "skip_ws (34 # t @ 125 # r) = 34 # t @ 125 # r"
      by (simp add: skip_ws_def is_ws_def)
    show ?thesis
      using t lv items by (simp add: scan_once_object sk dict_of_pairs_distinct [OF dist])
  qed
next
  case 8
  then show ?case by simp
next
  case (9 x)
  have "scan_once f lv1 (dumps x @ 93 # r1) = Some (x, 93 # r1)"
    using "9.IH" "9.prems" by (simp add: number_end_simps)
  then show ?case using array_items_last by simp
next
  case (10 x y ys)
  have rx: "representable x" and rys: "representable_list (y # ys)"
    and lx: "within_limits lv1 x" and lys: "within_limits_list lv1 (y # ys)"
    using "10.prems" by simp_all
  obtain c cs where c: "dumps_list (y # ys) = c # cs" "value_start c"
    using dumps_list_start [OF rys] by blast
  have "scan_once f lv1 (dumps x @ 44 # 32 # c # cs @ 93 # r1)
      = Some (x, 44 # 32 # c # cs @ 93 # r1)"
    using "10.IH"(1) [OF rx lx] by (simp add: number_end_simps)
  then have "array_items f lv1 (dumps x @ 44 # 32 # c # cs @ 93 # r1)
      = prepend x (array_items f lv1 (c # cs @ 93 # r1))"
    using c(2) by (rule array_items_more)
  moreover have "array_items f lv1 (c # cs @ 93 # r1) = Some (y # ys, r1)"
    using "10.IH"(2) [OF rys lys _, of r1] c by simp
  ultimately show ?case using c by (simp add: prepend_def)
next
  case 11
  then show ?case by simp
next
  case (12 k v)
  have rk: "list_all scalar_value k" and rv: "representable v" and lim: "within_limits lv2 v"
    using "12.prems" by simp_all
  obtain c cs where c: "dumps v = c # cs" "value_start c"
    using dumps_start [OF rv] by blast
  have "scan_once f lv2 (c # cs @ 125 # r2) = Some (v, 125 # r2)"
    using "12.IH" [OF rv lim, of "125 # r2"] c by (simp add: number_end_simps)
  then show ?case
    using object_items_last [OF rk c(2), of f lv2 cs r2 v] c by simp
next
  case (13 k v p ps)
  have rk: "list_all scalar_value k" and rv: "representable v"
    and rps: "representable_items (p # ps)"
    and lim: "within_limits lv2 v" and lps: "within_limits_items lv2 (p # ps)"
    using "13.prems" by simp_all
  obtain c cs where c: "dumps v = c # cs" "value_start c"
    using dumps_start [OF rv] by blast
  obtain t where t: "dumps_items (p # ps) = 34 # t"
    using dumps_items_start by blast
  have "scan_once f lv2 (c # cs @ 44 # 32 # 34 # t @ 125 # r2)
      = Some (v, 44 # 32 # 34 # t @ 125 # r2)"
    using "13.IH"(1) [OF rv lim, of "44 # 32 # 34 # t @ 125 # r2"] c
    by (simp add: number_end_simps)
  then have "object_items f lv2
        (encode_basestring_ascii k @ 58 # 32 # c # cs @ 44 # 32 # 34 # t @ 125 # r2)
      = prepend (k, v) (object_items f lv2 (34 # t @ 125 # r2))"
    using object_items_more [OF rk c(2), of f lv2 cs "t @ 125 # r2" v] by simp
  moreover have "object_items f lv2 (34 # t @ 125 # r2) = Some (p # ps, r2)"
    using "13.IH"(2) [OF rps lps _, of r2] t by simp
  ultimately show ?case using c t by (simp add: prepend_def)
qed

lemma loads_dumps:
  "representable v \<Longrightarrow> within_limits lv v \<Longrightarrow> loads f lv (dumps v) = Some v"
proof -
  assume rep: "representable v" and lim: "within_limits lv v"
  obtain c cs where c: "dumps v = c # cs" "value_start c"
    using dumps_start [OF rep] by blast
  have "scan_once f lv (dumps v @ []) = Some (v, [])"
    using rep lim by (rule scan_once_dumps(1)) (simp add: number_end_simps)
  moreover have "skip_ws [] = []" by (simp add: skip_ws_def)
  ultimately show ?thesis
    using c by (simp add: loads_def value_start_skip [OF c(2)])
qed

section \<open>The parser consumes its input\<close>

text \<open>
  Whatever the scanner reads, the text it leaves is shorter than the text it was given.
  So the tests on the lengths in the loops over items always succeed, and the loops are
  the loops of the library.
\<close>


lemma match_number_length: "match_number f s = Some (v, r) \<Longrightarrow> length r < length s"
proof -
  assume a: "match_number f s = Some (v, r)"
  define k where "k = length (match_sign s) + length (match_integer (drop (length (match_sign s)) s))"
  have ne: "match_integer (drop (length (match_sign s)) s) \<noteq> []"
    using a by (auto simp: match_number_def Let_def split: if_splits)
  then have k: "0 < k" by (simp add: k_def)
  have "drop (length (match_sign s)) s \<noteq> []"
    using ne by (auto simp: match_integer_def)
  then have s: "s \<noteq> []" by auto
  have "\<exists>j. r = drop (k + j) s"
  proof (cases "match_frac (drop k s) = [] \<and> match_exp (drop (length (match_frac (drop k s))) (drop k s)) = []")
    case True
    then have "r = drop (k + 0) s"
      using a ne by (auto simp: match_number_def Let_def k_def split: if_splits)
    then show ?thesis by blast
  next
    case False
    then have "r = drop (length (match_frac (drop k s))
        + length (match_exp (drop (length (match_frac (drop k s))) (drop k s)))) (drop k s)"
      using a ne by (auto simp: match_number_def Let_def k_def split: if_splits)
    then show ?thesis by (auto simp: add.commute)
  qed
  then obtain j where "r = drop (k + j) s" by blast
  then show ?thesis using k s by simp
qed

lemma parse_progress:
  "scan_once f lv s = Some (v, r) \<Longrightarrow> length r < length s"
  "array_items f lv s1 = Some (vs, r1) \<Longrightarrow> length r1 < length s1"
  "object_items f lv s2 = Some (ps, r2) \<Longrightarrow> length r2 < length s2"
proof (induction f lv s and f lv s1 and f lv s2 arbitrary: v r and vs r1 and ps r2
    rule: scan_once_array_items_object_items.induct)
  case (1 f lv)
  then show ?case by (simp add: scan_once.simps)
next
  case (2 f lv c cs)
  consider (str) "c = 34" | (obj) "c = 123" | (arr) "c = 91"
    | (other) "c \<noteq> 34" "c \<noteq> 123" "c \<noteq> 91" by blast
  then show ?case
  proof cases
    case str
    then show ?thesis
      using "2.prems" scanstring_length
      by (fastforce simp: scan_once_string split: option.splits)
  next
    case obj
    show ?thesis
    proof (cases "skip_ws cs")
      case Nil
      then show ?thesis using "2.prems" obj by (simp add: scan_once_object split: if_splits)
    next
      case (Cons d ds)
      have le: "length (d # ds) \<le> length cs" using skip_ws_length [of cs] Cons by simp
      show ?thesis
      proof (cases "d = 125")
        case True
        then show ?thesis
          using "2.prems" obj Cons le by (auto simp: scan_once_object split: if_splits)
      next
        case False
        then obtain pairs where lv: "lv \<noteq> 0"
          and "object_items f (lv - 1) (d # ds) = Some (pairs, r)"
          using "2.prems" obj Cons
          by (auto simp: scan_once_object split: option.splits if_splits)
        then have "length r < length (d # ds)"
          using "2.IH"(1) obj Cons False by simp
        then show ?thesis using le by simp
      qed
    qed
  next
    case arr
    show ?thesis
    proof (cases "skip_ws cs")
      case Nil
      then show ?thesis using "2.prems" arr by (simp add: scan_once_array split: if_splits)
    next
      case (Cons d ds)
      have le: "length (d # ds) \<le> length cs" using skip_ws_length [of cs] Cons by simp
      show ?thesis
      proof (cases "d = 93")
        case True
        then show ?thesis
          using "2.prems" arr Cons le by (auto simp: scan_once_array split: if_splits)
      next
        case False
        then obtain vals where lv: "lv \<noteq> 0"
          and "array_items f (lv - 1) (d # ds) = Some (vals, r)"
          using "2.prems" arr Cons
          by (auto simp: scan_once_array split: option.splits if_splits)
        then have "length r < length (d # ds)"
          using "2.IH"(2) arr Cons False by simp
        then show ?thesis using le by simp
      qed
    qed
  next
    case other
    have "(\<exists>k. r = drop k cs) \<or> match_number f (c # cs) = Some (v, r)"
      using "2.prems" other by (auto simp: scan_once.simps split: if_splits)
    then show ?thesis using match_number_length by fastforce
  qed
next
  case (3 f lv s)
  obtain x t where x: "scan_once f lv s = Some (x, t)"
    using "3.prems" by (auto simp: array_items.simps [of f lv s] split: option.splits)
  have t: "length t < length s" using "3.IH"(1) x by simp
  obtain d ds where d: "skip_ws t = d # ds"
    using "3.prems" x by (auto simp: array_items.simps [of f lv s] split: list.splits)
  have ds: "length ds < length t" using skip_ws_Cons_length [OF d] .
  show ?case
  proof (cases "d = 93")
    case True
    then show ?thesis using "3.prems" x d t ds by (simp add: array_items.simps [of f lv s])
  next
    case False
    then have g: "d = 44" "length (skip_ws ds) < length s"
      and rec: "prepend x (array_items f lv (skip_ws ds)) = Some (vs, r1)"
      using "3.prems" x d by (auto simp: array_items.simps [of f lv s] split: if_splits)
    then obtain ws where "array_items f lv (skip_ws ds) = Some (ws, r1)"
      by (auto simp: prepend_Some)
    then have "length r1 < length (skip_ws ds)"
      using "3.IH"(2) x d False g by simp
    then show ?thesis using g by simp
  qed
next
  case (4 f lv s)
  note U = "4.prems" [unfolded object_items.simps [of f lv s]]
  obtain q s1 where s: "s = q # s1" "q = 34"
    using U by (auto split: list.splits if_splits)
  obtain key t1 where key: "scanstring s1 = Some (key, t1)"
    using U s by (auto split: option.splits)
  obtain colon t2 where colon: "skip_ws t1 = colon # t2" "colon = 58"
    using U s key by (auto split: list.splits if_splits)
  obtain x t3 where x: "scan_once f lv (skip_ws t2) = Some (x, t3)"
    using U s key colon by (auto split: option.splits)
  obtain d ds where d: "skip_ws t3 = d # ds"
    using U s key colon x by (auto split: list.splits)
  have t3: "length t3 < length (skip_ws t2)"
    using "4.IH"(1) s key colon x by simp
  have chain: "length (skip_ws t2) < length s"
    using scanstring_length [OF key] skip_ws_Cons_length [OF colon(1)] skip_ws_length [of t2] s
    by simp
  have ds: "length ds < length t3" using skip_ws_Cons_length [OF d] .
  show ?case
  proof (cases "d = 125")
    case True
    then show ?thesis
      using U s key colon x d t3 chain ds by simp
  next
    case False
    then have g: "d = 44" "length (skip_ws ds) < length s"
      and rec: "prepend (key, x) (object_items f lv (skip_ws ds)) = Some (ps, r2)"
      using U s key colon x d by (auto split: if_splits)
    then obtain qs where "object_items f lv (skip_ws ds) = Some (qs, r2)"
      by (auto simp: prepend_Some)
    then have "length r2 < length (skip_ws ds)"
      using "4.IH"(2) s key colon x d False g by simp
    then show ?thesis using g by simp
  qed
qed

lemma array_items_unguarded:
  "array_items f lv s =
     (case scan_once f lv s of
        None \<Rightarrow> None
      | Some (v, r) \<Rightarrow>
          (case skip_ws r of
             [] \<Rightarrow> None
           | d # ds \<Rightarrow>
               if d = 93 then Some ([v], ds)
               else if d = 44 then prepend v (array_items f lv (skip_ws ds))
               else None))"
proof (cases "scan_once f lv s")
  case None
  then show ?thesis by (simp add: array_items.simps [of f lv s])
next
  case (Some p)
  obtain v r where p: "p = (v, r)" by (cases p)
  have r: "length r < length s" using parse_progress(1) Some p by simp
  show ?thesis
  proof (cases "skip_ws r")
    case Nil
    then show ?thesis using Some p by (simp add: array_items.simps [of f lv s])
  next
    case (Cons d ds)
    have "length (skip_ws ds) < length s"
      using skip_ws_length [of ds] skip_ws_Cons_length [OF Cons] r by simp
    then show ?thesis using Some p Cons by (simp add: array_items.simps [of f lv s])
  qed
qed

lemma object_items_unguarded:
  "object_items f lv s =
     (case s of
        [] \<Rightarrow> None
      | quote # s1 \<Rightarrow>
          if quote \<noteq> 34 then None
          else
            (case scanstring s1 of
               None \<Rightarrow> None
             | Some (key, r1) \<Rightarrow>
                 (case skip_ws r1 of
                    [] \<Rightarrow> None
                  | colon # r2 \<Rightarrow>
                      if colon \<noteq> 58 then None
                      else
                        (case scan_once f lv (skip_ws r2) of
                           None \<Rightarrow> None
                         | Some (v, r3) \<Rightarrow>
                             (case skip_ws r3 of
                                [] \<Rightarrow> None
                              | d # ds \<Rightarrow>
                                  if d = 125 then Some ([(key, v)], ds)
                                  else if d = 44
                                  then prepend (key, v) (object_items f lv (skip_ws ds))
                                  else None)))))"
proof (cases s)
  case Nil
  then show ?thesis by (subst object_items.simps) simp
next
  case (Cons quote s1)
  show ?thesis
  proof (cases "scanstring s1")
    case None
    then show ?thesis using Cons by (subst object_items.simps) simp
  next
    case (Some p)
    obtain key r1 where p: "scanstring s1 = Some (key, r1)" using Some by (cases p) simp
    show ?thesis
    proof (cases "skip_ws r1")
      case Nil
      then show ?thesis using Cons p by (subst object_items.simps) simp
    next
      case colon: (Cons colon r2)
      show ?thesis
      proof (cases "scan_once f lv (skip_ws r2)")
        case None
        then show ?thesis using Cons p colon by (subst object_items.simps) simp
      next
        case (Some pv)
        obtain v r3 where v: "scan_once f lv (skip_ws r2) = Some (v, r3)"
          using Some by (cases pv) simp
        show ?thesis
        proof (cases "skip_ws r3")
          case Nil
          then show ?thesis using Cons p colon v by (subst object_items.simps) simp
        next
          case d: (Cons d ds)
          have "length (skip_ws ds) < Suc (length s1)"
            using scanstring_length [OF p] skip_ws_Cons_length [OF colon]
              skip_ws_length [of r2] parse_progress(1) [OF v]
              skip_ws_Cons_length [OF d] skip_ws_length [of ds]
            by simp
          then show ?thesis using Cons p colon v d by (subst object_items.simps) simp
        qed
      qed
    qed
  qed
qed


section \<open>Encoded messages are ASCII\<close>


lemma ascii_simps: "ascii []" "ascii (c # cs) \<longleftrightarrow> c < 128 \<and> ascii cs"
  "ascii (xs @ ys) \<longleftrightarrow> ascii xs \<and> ascii ys"
  by (simp_all add: ascii_def)

lemma ascii_hex_digit: "d < 16 \<Longrightarrow> hex_digit d < 128"
  by (simp add: hex_digit_def)

lemma ascii_hex4: "ascii (hex4 n)"
  by (simp add: hex4_def ascii_simps ascii_hex_digit)

lemma ascii_escape_char: "ascii (escape_char c)"
  by (simp add: escape_char_def ascii_simps ascii_hex4)

lemma ascii_basestring: "ascii (encode_basestring_ascii s)"
proof -
  have "ascii (concat (map escape_char s))"
    by (induction s) (simp_all add: ascii_simps ascii_escape_char)
  then show ?thesis by (simp add: encode_basestring_ascii_def ascii_simps)
qed

lemma ascii_digits: "list_all is_digit ds \<Longrightarrow> ascii ds"
  by (induction ds) (simp_all add: ascii_simps is_digit_def)

lemma ascii_int_repr: "ascii (int_repr i)"
  by (simp add: int_repr_def ascii_simps ascii_digits nat_repr_digits)

lemma ascii_dumps:
  "float_free v \<Longrightarrow> ascii (dumps v)"
  "float_free_list xs \<Longrightarrow> ascii (dumps_list xs)"
  "float_free_items kvs \<Longrightarrow> ascii (dumps_items kvs)"
proof (induction v and xs and kvs rule: dumps_dumps_list_dumps_items.induct)
  case 1
  then show ?case by (simp add: py_def ascii_simps)
next
  case (2 b)
  then show ?case by (simp add: py_def ascii_simps)
qed (simp_all add: ascii_simps ascii_int_repr ascii_basestring)

lemma utf8_encode_ascii: "ascii s \<Longrightarrow> utf8_encode s = Some (map char_of s)"
  by (induction s) (simp_all add: ascii_simps utf8_char_def)

lemma utf8_decode_ascii: "ascii s \<Longrightarrow> utf8_decode (map char_of s) = Some s"
  by (induction s) (simp_all add: ascii_simps)

lemma representable_float_free:
  "representable v \<Longrightarrow> float_free v"
  "representable_list xs \<Longrightarrow> float_free_list xs"
  "representable_items kvs \<Longrightarrow> float_free_items kvs"
  by (induction v and xs and kvs rule: representable_representable_list_representable_items.induct)
    simp_all

lemma float_free_lines: "float_free_list (map JStr lines)"
  by (induction lines) simp_all

lemma encode_float_free: "float_free v \<Longrightarrow> utf8_encode (dumps v) = Some (wire v)"
  by (simp add: wire_def utf8_encode_ascii ascii_dumps)

lemma encode_request_wire:
  assumes "float_free params" and "within_limits lv (request_message method params)"
  shows "encode_request lv method params = Some (wire (request_message method params))"
proof -
  have "float_free (request_message method params)"
    using assms(1) by (simp add: request_message_def)
  then show ?thesis
    using assms(2) by (simp add: encode_request_def json_dumps_def encode_float_free)
qed

lemma encode_response_wire:
  assumes "float_free result" and "within_limits lv (response_message result error)"
  shows "encode_response lv result error = Some (wire (response_message result error))"
proof -
  have "float_free (response_message result error)"
    using assms(1) by (cases error) (simp_all add: response_message_def)
  then show ?thesis
    using assms(2) by (simp add: encode_response_def json_dumps_def encode_float_free)
qed

lemma decode_wire:
  "representable v \<Longrightarrow> within_limits lv v \<Longrightarrow> decode f lv (wire v) = Some v"
  by (simp add: decode_def wire_def utf8_decode_ascii ascii_dumps representable_float_free
      loads_dumps)

lemma error_response_wire:
  assumes "0 < env_encode_depth env"
  shows "error_response env e = Some (wire (response_message JNull (Some (exn_text e))))"
  unfolding error_response_def
  by (rule encode_response_wire) (simp_all add: response_message_def assms)

lemma handle_load_float_free: "handle_load env c params = (Inr result, c') \<Longrightarrow> float_free result"
  by (auto simp: handle_load_def Let_def add_lines_def split: sum.splits if_splits)

lemma handle_sample_float_free: "handle_sample env c params = (Inr result, c') \<Longrightarrow> float_free result"
  by (auto simp: handle_sample_def Let_def float_free_lines split: sum.splits if_splits prod.splits)

lemma dispatch_float_free: "dispatch env c data = (Inr result, c') \<Longrightarrow> float_free result"
  by (auto simp: dispatch_def handle_load_float_free handle_sample_float_free
      split: option.splits sum.splits if_splits)

lemma handle_message_result:
  assumes "dispatch env c data = (Inr result, c')"
    and "\<not> socket_closed env data"
    and "within_limits (env_encode_depth env) (response_message result None)"
  shows "handle_message env c data = (Some (wire (response_message result None)), c')"
  using assms(1,2)
  by (simp add: handle_message_def
      encode_response_wire [OF dispatch_float_free [OF assms(1)] assms(3)])

lemma handle_message_error:
  assumes "dispatch env c data = (Inl e, c')"
    and "\<not> socket_closed env data"
    and "0 < env_encode_depth env"
  shows "handle_message env c data
           = (Some (wire (response_message JNull (Some (exn_text e)))), c')"
  using assms(1,2) by (simp add: handle_message_def error_response_wire [OF assms(3)])

lemma handle_load_error_unchanged: "handle_load env c params = (Inl e, c') \<Longrightarrow> c' = c"
  by (auto simp: handle_load_def Let_def split: sum.splits if_splits prod.splits)

lemma handle_sample_error_unchanged: "handle_sample env c params = (Inl e, c') \<Longrightarrow> c' = c"
  by (auto simp: handle_sample_def Let_def split: sum.splits if_splits prod.splits)

lemma dispatch_error_unchanged: "dispatch env c data = (Inl e, c') \<Longrightarrow> c' = c"
  by (auto simp: dispatch_def handle_load_error_unchanged handle_sample_error_unchanged
      split: option.splits sum.splits if_splits)

section \<open>Properties of the session handler\<close>


lemma dispatch_load:
  "request_of env data (JStr (py ''load'')) params \<Longrightarrow>
     dispatch env c data = handle_load env c params"
  by (auto simp: request_of_def dispatch_def split: option.splits)

lemma dispatch_sample:
  "request_of env data (JStr (py ''sample'')) params \<Longrightarrow>
     dispatch env c data = handle_sample env c params"
  by (auto simp: request_of_def dispatch_def py_def split: option.splits)

lemma socket_closed_load:
  "socket_closed env data \<longleftrightarrow>
     (\<exists>params. request_of env data (JStr (py ''load'')) params \<and> closes_socket env params)"
  by (auto simp: socket_closed_def request_of_def split: option.splits sum.splits)

lemma sample_keeps_socket:
  "request_of env data (JStr (py ''sample'')) params \<Longrightarrow> \<not> socket_closed env data"
  by (auto simp: socket_closed_def request_of_def py_def split: option.splits)

lemma text_path_keeps_socket:
  "request_of env data (JStr (py ''load'')) params \<Longrightarrow>
   dict_get params (py ''file_path'') JNull = Inr (JStr path) \<Longrightarrow> \<not> socket_closed env data"
  by (auto simp: socket_closed_def request_of_def closes_socket_def split: option.splits)

lemma closed_socket_ends_session:
  "socket_closed env data \<Longrightarrow> data \<noteq> [] \<Longrightarrow> fst (handle_client c ((env, data) # rest)) = []"
  by (simp add: handle_message_def case_prod_unfold)

declare handle_client.simps(2) [simp del]

lemma request_of_wire:
  "representable (request_message method params) \<Longrightarrow>
   within_limits (env_decode_depth env) (request_message method params) \<Longrightarrow>
     request_of env (wire (request_message method params)) (JStr method) params"
  by (simp add: request_of_def decode_wire)
     (simp add: dict_get_def request_message_def py_def)

lemma wire_nonempty: "wire (request_message method params) \<noteq> []"
  by (simp add: wire_def request_message_def)

lemma escape_char_nonempty: "escape_char c \<noteq> []"
  by (simp add: escape_char_def hex4_def)

lemma basestring_length: "length s \<le> length (encode_basestring_ascii s)"
proof -
  have "length s \<le> length (concat (map escape_char s))"
  proof (induction s)
    case Nil
    then show ?case by simp
  next
    case (Cons c s)
    show ?case
      using Cons escape_char_nonempty [of c] by (cases "escape_char c") simp_all
  qed
  then show ?thesis by (simp add: encode_basestring_ascii_def)
qed

lemma request_length: "length method \<le> length (wire (request_message method params))"
  using basestring_length [of "method"] by (simp add: wire_def request_message_def)

lemma decode_zero_byte: "decode f lv (CHR 0x00 # data) = None"
proof (cases "utf8_decode data")
  case None
  then show ?thesis by (simp add: decode_def)
next
  case (Some t)
  have "scan_once f lv (0 # t) = None"
    by (simp add: scan_once.simps py_def match_number_def match_sign_def match_integer_def)
  then show ?thesis
    using Some by (simp add: decode_def loads_def skip_ws_def is_ws_def)
qed

lemma sample_request_text:
  "dumps (request_message (py ''sample'') (JDict [(py ''n'', JInt 1)]))
     = [123, 34] @ py ''type'' @ [34, 58, 32, 34] @ py ''request'' @ [34, 44, 32, 34]
       @ py ''method'' @ [34, 58, 32, 34] @ py ''sample'' @ [34, 44, 32, 34]
       @ py ''params'' @ [34, 58, 32, 123, 34, 110, 34, 58, 32, 49, 125, 125]"
  by (simp add: request_message_def encode_basestring_ascii_def escape_char_def int_repr_def
      nat_repr.simps py_def)

lemma small_int_digits: "int_digits 1 \<le> int_max_str_digits" "int_digits 5 \<le> int_max_str_digits"
  by (simp_all add: int_digits_def int_max_str_digits_def nat_repr.simps)

text \<open>
  C3, at the request \<open>sample\<close> with \<open>n = 1\<close>: the encoded request is the 59 bytes of
  the JSON text of the message and nothing else. Its first byte is the brace; read as an
  unsigned integer of 1, 2, 4 or 8 bytes, in either byte order, the beginning of the
  message does not give the number of bytes that follow it.
\<close>


theorem request_frame_has_no_length_prefix:
  "encode_request 900 (py ''sample'') (JDict [(py ''n'', JInt 1)])
     = Some (map char_of (dumps (request_message (py ''sample'') (JDict [(py ''n'', JInt 1)]))))
   \<and> length (map char_of (dumps (request_message (py ''sample'') (JDict [(py ''n'', JInt 1)])))) = 59
   \<and> \<not> length_prefixed 1
        (map char_of (dumps (request_message (py ''sample'') (JDict [(py ''n'', JInt 1)]))))
   \<and> \<not> length_prefixed 2
        (map char_of (dumps (request_message (py ''sample'') (JDict [(py ''n'', JInt 1)]))))
   \<and> \<not> length_prefixed 4
        (map char_of (dumps (request_message (py ''sample'') (JDict [(py ''n'', JInt 1)]))))
   \<and> \<not> length_prefixed 8
        (map char_of (dumps (request_message (py ''sample'') (JDict [(py ''n'', JInt 1)]))))"
proof -
  have e: "encode_request 900 (py ''sample'') (JDict [(py ''n'', JInt 1)])
     = Some (map char_of (dumps (request_message (py ''sample'') (JDict [(py ''n'', JInt 1)]))))"
    unfolding wire_def [symmetric]
    by (rule encode_request_wire) (simp_all add: request_message_def small_int_digits)
  have n: "length (map char_of (dumps (request_message (py ''sample'') (JDict [(py ''n'', JInt 1)])))) = 59"
    unfolding sample_request_text by (simp add: py_def)
  have w1: "\<not> length_prefixed 1
        (map char_of (dumps (request_message (py ''sample'') (JDict [(py ''n'', JInt 1)]))))"
    unfolding sample_request_text by (simp add: py_def length_prefixed_def be_uint_def le_uint_def)
  have w2: "\<not> length_prefixed 2
        (map char_of (dumps (request_message (py ''sample'') (JDict [(py ''n'', JInt 1)]))))"
    unfolding sample_request_text by (simp add: py_def length_prefixed_def be_uint_def le_uint_def)
  have w4: "\<not> length_prefixed 4
        (map char_of (dumps (request_message (py ''sample'') (JDict [(py ''n'', JInt 1)]))))"
    unfolding sample_request_text by (simp add: py_def length_prefixed_def be_uint_def le_uint_def)
  have w8: "\<not> length_prefixed 8
        (map char_of (dumps (request_message (py ''sample'') (JDict [(py ''n'', JInt 1)]))))"
    unfolding sample_request_text by (simp add: py_def length_prefixed_def be_uint_def le_uint_def)
  show ?thesis using e n w1 w2 w4 w8 by blast
qed

text \<open>
  C3, as the code has it. For every request and every response without floats that the
  encoder accepts (integers of at most 4300 digits, nesting within the levels of
  recursion allowed), the encoded form is exactly the JSON text of the message object,
  one byte for each character; the text starts with the opening brace, so that there is
  no length prefix. The maximum message size is 10485760 bytes (10 MiB), and decoding
  checks no length against it: the encoded form of a request whose method name is longer
  than the maximum message size is itself longer than it, and is decoded to the request
  all the same. A byte string that begins with a zero byte is not decoded.
\<close>


theorem wire_form_is_bare_json:
  "(float_free params \<and> within_limits depth (request_message method params) \<longrightarrow>
      encode_request depth method params
        = Some (map char_of (dumps (request_message method params))))
   \<and> (float_free result \<and> within_limits depth (response_message result error) \<longrightarrow>
      encode_response depth result error
        = Some (map char_of (dumps (response_message result error))))
   \<and> hd (dumps (request_message method params)) = 123
   \<and> hd (dumps (response_message result error)) = 123
   \<and> MAX_MESSAGE_SIZE = 10485760
   \<and> (MAX_MESSAGE_SIZE < length method \<and> representable (request_message method params)
        \<and> within_limits depth (request_message method params) \<longrightarrow>
      MAX_MESSAGE_SIZE < length (map char_of (dumps (request_message method params)))
      \<and> decode f depth (map char_of (dumps (request_message method params)))
          = Some (request_message method params))
   \<and> decode f depth (CHR 0x00 # data) = None"
proof -
  have 1: "float_free params \<and> within_limits depth (request_message method params) \<longrightarrow>
      encode_request depth method params
        = Some (map char_of (dumps (request_message method params)))"
    using encode_request_wire [of "params" depth "method"] by (simp add: wire_def)
  have 2: "float_free result \<and> within_limits depth (response_message result error) \<longrightarrow>
      encode_response depth result error
        = Some (map char_of (dumps (response_message result error)))"
    using encode_response_wire [of result depth error] by (simp add: wire_def)
  have 3: "hd (dumps (request_message method params)) = 123"
    "hd (dumps (response_message result error)) = 123"
    by (simp_all add: request_message_def response_message_def)
  have 4: "MAX_MESSAGE_SIZE = 10485760" by (simp add: MAX_MESSAGE_SIZE_def)
  have 5: "MAX_MESSAGE_SIZE < length method \<and> representable (request_message method params)
        \<and> within_limits depth (request_message method params) \<longrightarrow>
      MAX_MESSAGE_SIZE < length (map char_of (dumps (request_message method params)))
      \<and> decode f depth (map char_of (dumps (request_message method params)))
          = Some (request_message method params)"
    using request_length [of "method" "params"]
      decode_wire [of "request_message method params" depth f]
    by (auto simp: wire_def)
  show ?thesis using 1 2 3 4 5 decode_zero_byte [of f depth data] by blast
qed

theorem wire_form_is_bare_json_witness:
  "float_free (JDict [(py ''n'', JInt 1)])
   \<and> within_limits 900 (request_message (py ''sample'') (JDict [(py ''n'', JInt 1)]))
   \<and> encode_request 900 (py ''sample'') (JDict [(py ''n'', JInt 1)])
       = Some (map char_of (dumps (request_message (py ''sample'') (JDict [(py ''n'', JInt 1)]))))
   \<and> float_free (JDict [(py ''lines'', JList [JStr (py ''b'')])])
   \<and> within_limits 900 (response_message (JDict [(py ''lines'', JList [JStr (py ''b'')])]) None)
   \<and> encode_response 900 (JDict [(py ''lines'', JList [JStr (py ''b'')])]) None
       = Some (map char_of
           (dumps (response_message (JDict [(py ''lines'', JList [JStr (py ''b'')])]) None)))
   \<and> MAX_MESSAGE_SIZE < length (replicate (Suc MAX_MESSAGE_SIZE) (97 :: nat))
   \<and> representable (request_message (replicate (Suc MAX_MESSAGE_SIZE) 97) (JDict []))
   \<and> within_limits 900 (request_message (replicate (Suc MAX_MESSAGE_SIZE) 97) (JDict []))
   \<and> MAX_MESSAGE_SIZE
       < length (map char_of
           (dumps (request_message (replicate (Suc MAX_MESSAGE_SIZE) 97) (JDict []))))
   \<and> decode (\<lambda>literal. literal) 900
        (map char_of (dumps (request_message (replicate (Suc MAX_MESSAGE_SIZE) 97) (JDict []))))
       = Some (request_message (replicate (Suc MAX_MESSAGE_SIZE) 97) (JDict []))"
proof -
  have h1: "float_free (JDict [(py ''n'', JInt 1)])" by simp
  have l1: "within_limits 900 (request_message (py ''sample'') (JDict [(py ''n'', JInt 1)]))"
    by (simp add: request_message_def small_int_digits)
  have h2: "float_free (JDict [(py ''lines'', JList [JStr (py ''b'')])])" by simp
  have l2: "within_limits 900
      (response_message (JDict [(py ''lines'', JList [JStr (py ''b'')])]) None)"
    by (simp add: response_message_def)
  have h3: "MAX_MESSAGE_SIZE < length (replicate (Suc MAX_MESSAGE_SIZE) (97 :: nat))"
    by (simp only: length_replicate lessI)
  have "list_all scalar_value (replicate (Suc MAX_MESSAGE_SIZE) 97)"
    by (simp only: list_all_iff set_replicate_conv_if) (simp add: scalar_value_def)
  then have r3: "representable (request_message (replicate (Suc MAX_MESSAGE_SIZE) 97) (JDict []))"
    by (simp add: request_message_def py_def scalar_value_def del: replicate.simps)
  have l3: "within_limits 900 (request_message (replicate (Suc MAX_MESSAGE_SIZE) 97) (JDict []))"
    by (simp add: request_message_def del: replicate.simps)
  show ?thesis
    using h1 l1 h2 l2 h3 r3 l3
      wire_form_is_bare_json [of "JDict [(py ''n'', JInt 1)]" 900 "py ''sample''"
        "JDict [(py ''lines'', JList [JStr (py ''b'')])]" None]
      wire_form_is_bare_json [of "JDict []" 900 "replicate (Suc MAX_MESSAGE_SIZE) 97"
        JNull None "\<lambda>literal. literal"]
    by blast
qed

text \<open>
  C4, at a session that receives the sample request with \<open>n = -0.5\<close> and then the
  sample request with \<open>n = 1\<close>, on the store of the lines \<open>a\<close> and \<open>b\<close>. The
  parameter of the first message is invalid, a negative number that is no integer; the
  message is answered with a result, the empty list of lines, and not with an error
  response. The request after it is answered as usual.
\<close>


theorem invalid_n_is_answered_with_a_result:
  \<open>handle_client demo_cache
     [(demo_env, ''{"type": "request", "method": "sample", "params": {"n": -0.5}}''),
      (demo_env, ''{"type": "request", "method": "sample", "params": {"n": 1}}'')]
   = ([''{"type": "response", "result": {"lines": []}, "error": null}'',
       ''{"type": "response", "result": {"lines": ["b"]}, "error": null}''],
      \<lparr>available_lines = [py ''a''], total_lines_loaded = 2\<rparr>)\<close>
proof -
  have first: \<open>handle_message demo_env demo_cache
      ''{"type": "request", "method": "sample", "params": {"n": -0.5}}''
     = (Some ''{"type": "response", "result": {"lines": []}, "error": null}'', demo_cache)\<close>
    by (simp add: handle_message_def dispatch_def socket_closed_def demo_env_def
        decode_def loads_def skip_ws_def is_ws_def scan_once.simps object_items.simps
        scanstring.simps prepend_def py_def match_number_def match_sign_def
        match_integer_def match_frac_def match_exp_def is_digit_def dict_of_pairs_def
        Let_def dict_get_def handle_sample_def sample_def
        encode_response_def json_dumps_def response_message_def encode_basestring_ascii_def
        escape_char_def utf8_char_def char_of_def bit_0)
  have second: \<open>handle_message demo_env demo_cache
      ''{"type": "request", "method": "sample", "params": {"n": 1}}''
     = (Some ''{"type": "response", "result": {"lines": ["b"]}, "error": null}'',
        \<lparr>available_lines = [py ''a''], total_lines_loaded = 2\<rparr>)\<close>
    by (simp add: handle_message_def dispatch_def socket_closed_def demo_env_def demo_cache_def
        decode_def loads_def skip_ws_def is_ws_def scan_once.simps object_items.simps
        scanstring.simps prepend_def py_def match_number_def match_sign_def
        match_integer_def match_frac_def match_exp_def is_digit_def digits_value_def
        dict_of_pairs_def int_max_str_digits_def
        Let_def dict_get_def handle_sample_def sample_def random_sample_def
        encode_response_def json_dumps_def response_message_def encode_basestring_ascii_def
        escape_char_def utf8_char_def char_of_def bit_0)
  show ?thesis
    by (simp add: handle_client.simps(2) first second)
qed

text \<open>
  C5, at the sample request with \<open>n = -0.5\<close>, which \<open>json.loads\<close> gives to the
  handler as a float: \<open>int(-0.5)\<close> is 0, the test \<open>n < 0\<close> comes after the
  conversion and passes, and the handler calls \<open>sample(0)\<close> and answers with the
  result whose \<open>lines\<close> are empty: the negative \<open>n\<close> is clamped to zero and no error
  is raised.
\<close>


theorem sample_clamps_negative_fraction:
  "dict_get (JDict [(py ''n'', JFloat (py ''-0.5''))]) (py ''n'') JNull
     = Inr (JFloat (py ''-0.5''))
   \<and> py_int demo_env (JFloat (py ''-0.5'')) = Inr 0
   \<and> handle_sample demo_env demo_cache (JDict [(py ''n'', JFloat (py ''-0.5''))])
       = (Inr (JDict [(py ''lines'', JList [])]), demo_cache)"
proof -
  have g: "dict_get (JDict [(py ''n'', JFloat (py ''-0.5''))]) (py ''n'') JNull
     = Inr (JFloat (py ''-0.5''))"
    by (simp add: dict_get_def)
  have i: "py_int demo_env (JFloat (py ''-0.5'')) = Inr 0"
    by (simp add: demo_env_def py_def)
  have s: "sample (env_draw demo_env) demo_cache 0 = ([], demo_cache)"
    by (simp add: sample_def)
  have "handle_sample demo_env demo_cache (JDict [(py ''n'', JFloat (py ''-0.5''))])
       = (Inr (JDict [(py ''lines'', JList [])]), demo_cache)"
    using g i s by (simp add: handle_sample_def)
  then show ?thesis using g i by blast
qed

text \<open>
  C7: for every method name made of Unicode scalar values and all representable
  parameters, when the message is within the limits of the interpreter both where it is
  encoded and where it is decoded (integers of at most 4300 digits, nesting within the
  levels of recursion allowed), encoding the request succeeds and decoding the bytes
  gives back the message, from which the method and the parameters are read as they were
  given; for every error text made of Unicode scalar values, when a level of recursion is
  left on both sides, encoding the error response succeeds and decoding the bytes gives a
  response whose result is null and whose error is the text.
\<close>


theorem protocol_round_trip:
  "(list_all scalar_value method \<and> representable params
      \<and> within_limits de (request_message method params)
      \<and> within_limits dd (request_message method params) \<longrightarrow>
      (case encode_request de method params of
         None \<Rightarrow> False
       | Some bytes \<Rightarrow> decode f dd bytes = Some (request_message method params))
      \<and> dict_get (request_message method params) (py ''method'') JNull = Inr (JStr method)
      \<and> dict_get (request_message method params) (py ''params'') (JDict []) = Inr params)
   \<and> (list_all scalar_value text \<and> 0 < de \<and> 0 < dd \<longrightarrow>
      (case encode_response de JNull (Some text) of
         None \<Rightarrow> False
       | Some bytes \<Rightarrow> decode f dd bytes = Some (response_message JNull (Some text)))
      \<and> dict_get (response_message JNull (Some text)) (py ''result'') JNull = Inr JNull
      \<and> dict_get (response_message JNull (Some text)) (py ''error'') JNull = Inr (JStr text))"
proof -
  have req: "representable (request_message method params)"
    if "list_all scalar_value method" "representable params"
    using that by (simp add: request_message_def py_def scalar_value_def)
  have resp: "representable (response_message JNull (Some text))"
    if "list_all scalar_value text"
    using that by (simp add: response_message_def py_def scalar_value_def)
  have lim: "within_limits d (response_message JNull (Some text))" if "0 < d" for d
    using that by (simp add: response_message_def)
  have 1: "encode_request de method params = Some (wire (request_message method params))"
    if "representable params" "within_limits de (request_message method params)"
    using representable_float_free(1) [OF that(1)] that(2) by (rule encode_request_wire)
  have 2: "encode_response de JNull (Some text)
      = Some (wire (response_message JNull (Some text)))"
    if "0 < de"
    by (rule encode_response_wire) (simp_all add: lim [OF that])
  have g: "dict_get (request_message method params) (py ''method'') JNull = Inr (JStr method)"
    "dict_get (request_message method params) (py ''params'') (JDict []) = Inr params"
    "dict_get (response_message JNull (Some text)) (py ''result'') JNull = Inr JNull"
    "dict_get (response_message JNull (Some text)) (py ''error'') JNull = Inr (JStr text)"
    by (simp_all add: dict_get_def request_message_def response_message_def py_def)
  have a: "list_all scalar_value method \<and> representable params
      \<and> within_limits de (request_message method params)
      \<and> within_limits dd (request_message method params) \<longrightarrow>
      (case encode_request de method params of
         None \<Rightarrow> False
       | Some bytes \<Rightarrow> decode f dd bytes = Some (request_message method params))"
    using 1 decode_wire [OF req, of dd f] by auto
  have b: "list_all scalar_value text \<and> 0 < de \<and> 0 < dd \<longrightarrow>
      (case encode_response de JNull (Some text) of
         None \<Rightarrow> False
       | Some bytes \<Rightarrow> decode f dd bytes = Some (response_message JNull (Some text)))"
    using 2 decode_wire [OF resp lim, of dd f] by auto
  show ?thesis using a b g by blast
qed

theorem protocol_round_trip_witness:
  "list_all scalar_value (py ''sample'') \<and> representable (JDict [(py ''n'', JInt 5)])
   \<and> within_limits 900 (request_message (py ''sample'') (JDict [(py ''n'', JInt 5)]))
   \<and> within_limits 800 (request_message (py ''sample'') (JDict [(py ''n'', JInt 5)]))
   \<and> (case encode_request 900 (py ''sample'') (JDict [(py ''n'', JInt 5)]) of
         None \<Rightarrow> False
       | Some bytes \<Rightarrow>
           decode (\<lambda>literal. literal) 800 bytes
             = Some (request_message (py ''sample'') (JDict [(py ''n'', JInt 5)])))
   \<and> list_all scalar_value (py ''Missing n parameter'')
   \<and> (case encode_response 900 JNull (Some (py ''Missing n parameter'')) of
         None \<Rightarrow> False
       | Some bytes \<Rightarrow>
           decode (\<lambda>literal. literal) 800 bytes
             = Some (response_message JNull (Some (py ''Missing n parameter''))))"
proof -
  have h1: "list_all scalar_value (py ''sample'')" by (simp add: py_def scalar_value_def)
  have h2: "representable (JDict [(py ''n'', JInt 5)])" by (simp add: py_def scalar_value_def)
  have h3: "list_all scalar_value (py ''Missing n parameter'')" by (simp add: py_def scalar_value_def)
  have l1: "within_limits 900 (request_message (py ''sample'') (JDict [(py ''n'', JInt 5)]))"
    by (simp add: request_message_def small_int_digits)
  have l2: "within_limits 800 (request_message (py ''sample'') (JDict [(py ''n'', JInt 5)]))"
    by (simp add: request_message_def small_int_digits)
  have d: "(0 :: nat) < 900" "(0 :: nat) < 800" by simp_all
  show ?thesis
    using h1 h2 h3 l1 l2 d
      protocol_round_trip [of "py ''sample''" "JDict [(py ''n'', JInt 5)]" 900 800
        "\<lambda>literal. literal" "py ''Missing n parameter''"]
    by blast
qed

text \<open>
  C8: for every load request whose \<open>file_path\<close> is a text that is not empty, when opening
  or reading the file raises, the response is the error \<open>Error reading file:\<close> followed
  by the text of the exception, the store (the available lines and the counter) is left
  as it was, and the session goes on with the next message. The error response has one
  level of nesting, which the encoder must be allowed.
\<close>


theorem load_failure_reported_store_unchanged:
  assumes "request_of env data (JStr (py ''load'')) params"
    and "dict_get params (py ''file_path'') JNull = Inr (JStr path)"
    and "path \<noteq> []"
    and "env_read_lines env (JStr path) = Inl text"
    and "0 < env_encode_depth env"
    and "data \<noteq> []"
  shows "handle_message env c data
           = (Some (wire (response_message JNull (Some (py ''Error reading file: '' @ text)))), c)
         \<and> handle_client c ((env, data) # rest)
           = (wire (response_message JNull (Some (py ''Error reading file: '' @ text)))
                # fst (handle_client c rest),
              snd (handle_client c rest))"
proof -
  have "dispatch env c data = handle_load env c params"
    using assms(1) by (rule dispatch_load)
  then have d: "dispatch env c data = (Inl (Exn ValueError (py ''Error reading file: '' @ text)), c)"
    using assms(2-4) by (simp add: handle_load_def)
  have open_socket: "\<not> socket_closed env data"
    using assms(1,2) by (rule text_path_keeps_socket)
  have hm: "handle_message env c data
      = (Some (wire (response_message JNull (Some (py ''Error reading file: '' @ text)))), c)"
    using handle_message_error [OF d open_socket assms(5)] by simp
  then show ?thesis
    using assms(6) by (simp add: handle_client.simps(2) case_prod_unfold Let_def)
qed

theorem load_failure_reported_store_unchanged_witness:
  "request_of demo_env
     (wire (request_message (py ''load'') (JDict [(py ''file_path'', JStr (py ''missing.txt''))])))
     (JStr (py ''load'')) (JDict [(py ''file_path'', JStr (py ''missing.txt''))])
   \<and> dict_get (JDict [(py ''file_path'', JStr (py ''missing.txt''))]) (py ''file_path'') JNull
       = Inr (JStr (py ''missing.txt''))
   \<and> py ''missing.txt'' \<noteq> []
   \<and> env_read_lines demo_env (JStr (py ''missing.txt''))
        = Inl (py ''[Errno 2] No such file or directory'')
   \<and> 0 < env_encode_depth demo_env
   \<and> handle_client demo_cache
        [(demo_env,
          wire (request_message (py ''load'') (JDict [(py ''file_path'', JStr (py ''missing.txt''))])))]
       = ([wire (response_message JNull
              (Some (py ''Error reading file: [Errno 2] No such file or directory'')))],
          demo_cache)"
proof -
  have r: "request_of demo_env
     (wire (request_message (py ''load'') (JDict [(py ''file_path'', JStr (py ''missing.txt''))])))
     (JStr (py ''load'')) (JDict [(py ''file_path'', JStr (py ''missing.txt''))])"
    by (rule request_of_wire)
      (simp_all add: request_message_def py_def scalar_value_def demo_env_def)
  have g: "dict_get (JDict [(py ''file_path'', JStr (py ''missing.txt''))]) (py ''file_path'') JNull
      = Inr (JStr (py ''missing.txt''))"
    by (simp add: dict_get_def)
  have t: "py ''missing.txt'' \<noteq> []" by (simp add: py_def)
  have e: "env_read_lines demo_env (JStr (py ''missing.txt''))
        = Inl (py ''[Errno 2] No such file or directory'')"
    by (simp add: demo_env_def)
  have dp: "0 < env_encode_depth demo_env" by (simp add: demo_env_def)
  have "py ''Error reading file: '' @ py ''[Errno 2] No such file or directory''
      = py ''Error reading file: [Errno 2] No such file or directory''"
    by (simp add: py_def)
  then show ?thesis
    using r g t e dp
      load_failure_reported_store_unchanged [OF r g t e dp wire_nonempty, of demo_cache "[]"]
    by simp
qed

end
